theory Spec2Isabelle
  imports Complex_Main "HOL-Library.AList"
begin

section \<open>The XML tree read by ol/format/GMLBase\<close>

text \<open>
  A DOM node as the decoder sees it. An element carries its qualified name (\<open>nodeName\<close>),
  its \<open>localName\<close>, its \<open>namespaceURI\<close> (\<open>None\<close> is JavaScript's \<open>null\<close>), its attributes
  (keyed by namespace URI and local name) and its \<open>childNodes\<close>. Text, CDATA and comment
  nodes carry their \<open>nodeValue\<close>. Strings are lists of code units; the code units used
  here all lie below 256.
\<close>

datatype node =
  Element string string "string option" "((string option \<times> string) \<times> string) list" "node list"
| Text string
| CDATASection string
| Comment string

fun nodeType :: "node \<Rightarrow> nat" where
  "nodeType (Element q l u a c) = 1"
| "nodeType (Text v) = 3"
| "nodeType (CDATASection v) = 4"
| "nodeType (Comment v) = 8"

fun nodeName :: "node \<Rightarrow> string" where
  "nodeName (Element q l u a c) = q"
| "nodeName (Text v) = ''#text''"
| "nodeName (CDATASection v) = ''#cdata-section''"
| "nodeName (Comment v) = ''#comment''"

fun localName :: "node \<Rightarrow> string" where
  "localName (Element q l u a c) = l"
| "localName (Text v) = []"
| "localName (CDATASection v) = []"
| "localName (Comment v) = []"

fun namespaceURI :: "node \<Rightarrow> string option" where
  "namespaceURI (Element q l u a c) = u"
| "namespaceURI (Text v) = None"
| "namespaceURI (CDATASection v) = None"
| "namespaceURI (Comment v) = None"

fun attributes :: "node \<Rightarrow> ((string option \<times> string) \<times> string) list" where
  "attributes (Element q l u a c) = a"
| "attributes (Text v) = []"
| "attributes (CDATASection v) = []"
| "attributes (Comment v) = []"

fun childNodes :: "node \<Rightarrow> node list" where
  "childNodes (Element q l u a c) = c"
| "childNodes (Text v) = []"
| "childNodes (CDATASection v) = []"
| "childNodes (Comment v) = []"

text \<open>
  \<open>node.firstElementChild\<close> followed by \<open>n.nextElementSibling\<close> walks the children of
  node type 1 in document order; \<open>firstElementChild\<close> is \<open>null\<close> when there is none.
\<close>

definition elementChildren :: "node \<Rightarrow> node list" where
  "elementChildren node = filter (\<lambda>n. nodeType n = 1) (childNodes node)"

definition firstElementChild :: "node \<Rightarrow> node option" where
  "firstElementChild node = (case elementChildren node of [] \<Rightarrow> None | n # ns \<Rightarrow> Some n)"

text \<open>
  \<open>node.getAttribute(name)\<close> for a name without prefix: the attribute in no namespace
  with that local name, \<open>null\<close> when the element has none.
\<close>

definition getAttribute :: "node \<Rightarrow> string \<Rightarrow> string option" where
  "getAttribute node name = map_of (attributes node) (None, name)"

section \<open>The helpers of ol/xml\<close>

text \<open>
  GMLBase imports ol/xml.js, which is not among the sources. Its helpers
  \<open>getAttributeNS\<close>, \<open>getAllTextContent\<close>, \<open>makeReplacer\<close>, \<open>makeArrayPusher\<close>,
  \<open>parseNode\<close> and \<open>pushParseAndPop\<close> are modelled here from what the spec says of the
  descent: each compound element pushes one frame and pops it on return; dispatch is
  keyed by namespace, then by local name; elements outside every recognised pair are
  skipped; a decoder that returns \<open>undefined\<close> is treated by the parent as absence.
\<close>

text \<open>
  Modelled from the spec: \<open>getAttributeNS(node, namespaceURI, name)\<close> of ol/xml.js is
  missing. The identifier is read from a namespaced \<open>id\<close> attribute; an absent attribute
  gives the empty string.
\<close>

definition getAttributeNS :: "node \<Rightarrow> string \<Rightarrow> string \<Rightarrow> string" where
  "getAttributeNS node ns name =
     (case map_of (attributes node) (Some ns, name) of None \<Rightarrow> [] | Some v \<Rightarrow> v)"

text \<open>
  Modelled from the spec: \<open>getAllTextContent(node, false)\<close> of ol/xml.js is missing. It
  is the text a property element bears: the values of the text and CDATA nodes below
  the node, in document order.
\<close>

fun getAllTextContent :: "node \<Rightarrow> string" where
  "getAllTextContent (Text v) = v"
| "getAllTextContent (CDATASection v) = v"
| "getAllTextContent (Comment v) = []"
| "getAllTextContent (Element q l u a c) = concat (map getAllTextContent c)"

datatype error = TypeError

text \<open>
  The JavaScript values the feature decoder handles: \<open>undefined\<close>, \<open>null\<close>, a string, an
  array, an \<open>ol.Feature\<close> and a geometry (of a type \<open>'g\<close> left open: geometries are built
  by the parsers of the subclasses). \<open>Feature values geometryName id\<close> is the feature made
  by \<open>new Feature(values)\<close>: the own properties of the object \<open>values\<close> in the order of
  their creation, the name passed to \<open>setGeometryName\<close> (\<open>None\<close> when it was not called)
  and the identifier passed to \<open>setId\<close> (\<open>None\<close> when it was not called).
\<close>

datatype 'g val =
  Undefined
| Null
| Str string
| Arr "'g val list"
| Feature "(string \<times> 'g val) list" "string option" "string option"
| Geom 'g

fun truthy :: "'g val \<Rightarrow> bool" where
  "truthy Undefined = False"
| "truthy Null = False"
| "truthy (Str s) = (s \<noteq> [])"
| "truthy (Arr xs) = True"
| "truthy (Feature vs g i) = True"
| "truthy (Geom g) = True"

fun isArray :: "'g val \<Rightarrow> bool" where
  "isArray (Arr xs) = True"
| "isArray Undefined = False"
| "isArray Null = False"
| "isArray (Str s) = False"
| "isArray (Feature vs g i) = False"
| "isArray (Geom g) = False"

text \<open>
  The parse context is \<open>objectStack[0]\<close>, the only entry of the stack that the readers of
  GMLBase address by index. \<open>featureType\<close> is \<open>undefined\<close>, a string or an array of
  strings; \<open>featureNS\<close> is \<open>undefined\<close>, a string or an object from prefixes to namespace
  URIs, kept in the order in which \<open>for (p in featureNS)\<close> enumerates it.
\<close>

datatype FeatureType = FT_undefined | FT_string string | FT_array "string list"

datatype FeatureNS = NS_undefined | NS_string string | NS_object "(string \<times> string option) list"

record ParseContext =
  featureType :: FeatureType
  featureNS :: FeatureNS
  srsName :: "string option"
  srsDimension :: "string option"

text \<open>
  Modelled from the spec: \<open>makeReplacer\<close> and \<open>makeArrayPusher\<close> of ol/xml.js are missing.
  A parser is what \<open>makeReplacer(valueReader)\<close> and \<open>makeArrayPusher(valueReader)\<close>
  return; the tables of GMLBase hold such parsers.
\<close>

datatype 'g parser =
  Replacer "node \<Rightarrow> ParseContext \<Rightarrow> error + ('g val \<times> ParseContext)"
| ArrayPusher "node \<Rightarrow> ParseContext \<Rightarrow> error + ('g val \<times> ParseContext)"

text \<open>
  Modelled from the spec: the bodies of the functions that \<open>makeReplacer\<close> and
  \<open>makeArrayPusher\<close> of ol/xml.js return are missing. Called on a node, a parser runs
  its value reader; \<open>undefined\<close> is absence and changes nothing; any other value replaces
  the frame on top of the stack (replacer) or is pushed onto the array on top of the
  stack (array pusher; pushing onto a frame that is no array is a \<open>TypeError\<close>). The stack
  is kept as the context at its bottom and the frame at its top.
\<close>

fun callParser :: "'g parser \<Rightarrow> node \<Rightarrow> ParseContext \<times> 'g val \<Rightarrow> error + (ParseContext \<times> 'g val)" where
  "callParser (Replacer valueReader) n (objectStack0, frame) =
     (case valueReader n objectStack0 of
        Inl e \<Rightarrow> Inl e
      | Inr (v, objectStack0') \<Rightarrow> Inr (objectStack0', if v \<noteq> Undefined then v else frame))"
| "callParser (ArrayPusher valueReader) n (objectStack0, frame) =
     (case valueReader n objectStack0 of
        Inl e \<Rightarrow> Inl e
      | Inr (v, objectStack0') \<Rightarrow>
          if v \<noteq> Undefined
          then (case frame of Arr xs \<Rightarrow> Inr (objectStack0', Arr (xs @ [v])) | _ \<Rightarrow> Inl TypeError)
          else Inr (objectStack0', frame))"

text \<open>
  A property key is a string: \<open>parsersNS[uri]\<close> with \<open>uri === null\<close> addresses the
  property \<open>"null"\<close>.
\<close>

definition propertyKey :: "string option \<Rightarrow> string" where
  "propertyKey u = (case u of None \<Rightarrow> ''null'' | Some s \<Rightarrow> s)"

text \<open>
  Modelled from the spec: the loop of \<open>parseNode\<close> of ol/xml.js is missing. Dispatch is
  keyed by the namespace URI of the child element, then by its local name; a child
  outside every recognised pair is skipped.
\<close>

fun parseChildren ::
  "(string \<times> (string \<times> 'g parser) list) list \<Rightarrow> node list \<Rightarrow> ParseContext \<times> 'g val
     \<Rightarrow> error + (ParseContext \<times> 'g val)" where
  "parseChildren parsersNS [] st = Inr st"
| "parseChildren parsersNS (n # ns) st =
     (case map_of parsersNS (propertyKey (namespaceURI n)) of
        None \<Rightarrow> parseChildren parsersNS ns st
      | Some parsers \<Rightarrow>
          (case map_of parsers (localName n) of
             None \<Rightarrow> parseChildren parsersNS ns st
           | Some parser \<Rightarrow>
               (case callParser parser n st of
                  Inl e \<Rightarrow> Inl e
                | Inr st' \<Rightarrow> parseChildren parsersNS ns st')))"

text \<open>
  Modelled from the spec: \<open>parseNode(parsersNS, node, objectStack, this)\<close> of ol/xml.js
  is missing. It runs the parsers over the child elements of the node in document order.
\<close>

definition parseNode ::
  "(string \<times> (string \<times> 'g parser) list) list \<Rightarrow> node \<Rightarrow> ParseContext \<times> 'g val
     \<Rightarrow> error + (ParseContext \<times> 'g val)" where
  "parseNode parsersNS node st = parseChildren parsersNS (elementChildren node) st"

text \<open>
  Modelled from the spec: \<open>pushParseAndPop(object, parsersNS, node, objectStack, this)\<close>
  of ol/xml.js is missing. It pushes \<open>object\<close> as a frame, parses the node and returns
  the frame it pops.
\<close>

definition pushParseAndPop ::
  "'g val \<Rightarrow> (string \<times> (string \<times> 'g parser) list) list \<Rightarrow> node \<Rightarrow> ParseContext
     \<Rightarrow> error + ('g val \<times> ParseContext)" where
  "pushParseAndPop object parsersNS node objectStack0 =
     (case parseNode parsersNS node (objectStack0, object) of
        Inl e \<Rightarrow> Inl e
      | Inr (objectStack0', frame) \<Rightarrow> Inr (frame, objectStack0'))"

section \<open>GMLBase: features\<close>

text \<open>
  The format object: \<open>this.featureType\<close> and \<open>this.featureNS\<close> from the options, and the two
  collaborators that GMLBase names but does not define. \<open>GEOMETRY_PARSERS node context\<close>
  stands for \<open>pushParseAndPop(null, this.GEOMETRY_PARSERS_, node, objectStack, this)\<close>: the
  table is filled in by the subclasses GML2 and GML3, so what it leaves on the stack
  (\<open>None\<close> is \<open>null\<close>) and whether it throws are left open. \<open>transformWithOptions\<close> is
  \<open>FeatureFormat.transformWithOptions(geometry, false, context)\<close>.
\<close>

record 'g GMLBase =
  this_featureType :: FeatureType
  this_featureNS :: FeatureNS
  GEOMETRY_PARSERS :: "node \<Rightarrow> ParseContext \<Rightarrow> error + 'g option"
  transformWithOptions :: "'g \<Rightarrow> ParseContext \<Rightarrow> 'g"

definition GMLNS :: string where
  "GMLNS = ''http://www.opengis.net/gml''"

text \<open>
  \<open>ONLY_WHITESPACE_RE_ = /^[\s\xa0]*$/\<close>: every code unit is white space. Below 256 the
  class \<open>\s\<close> holds the code units 9 to 13, 32 and 160.
\<close>

definition isWhitespace :: "char \<Rightarrow> bool" where
  "isWhitespace c = (of_char c \<in> {9, 10, 11, 12, 13, 32, 160 :: nat})"

definition ONLY_WHITESPACE_RE :: "string \<Rightarrow> bool" where
  "ONLY_WHITESPACE_RE s = list_all isWhitespace s"

text \<open>
  Lines 199 to 213. \<open>node.firstElementChild.getAttribute\<close> throws a \<open>TypeError\<close> when the
  node has no child element.
\<close>

definition readGeometryElement ::
  "'g GMLBase \<Rightarrow> node \<Rightarrow> ParseContext \<Rightarrow> error + ('g val \<times> ParseContext)" where
  "readGeometryElement this node context =
     (case firstElementChild node of
        None \<Rightarrow> Inl TypeError
      | Some child \<Rightarrow>
          (let context' = context\<lparr>srsName := getAttribute child ''srsName'',
                                  srsDimension := getAttribute child ''srsDimension''\<rparr>
           in case GEOMETRY_PARSERS this node context' of
                Inl e \<Rightarrow> Inl e
              | Inr None \<Rightarrow> Inr (Undefined, context')
              | Inr (Some geometry) \<Rightarrow>
                  Inr (Geom (transformWithOptions this geometry context'), context')))"

text \<open>
  The test of line 231: an element with no child node, or with exactly one child node
  that is a text or CDATA node, is read as an attribute value; any other element is read
  as a geometry.
\<close>

definition isAttributeElement :: "node \<Rightarrow> bool" where
  "isAttributeElement n =
     (length (childNodes n) = 0 \<or>
      (length (childNodes n) = 1 \<and>
       (nodeType (hd (childNodes n)) = 3 \<or> nodeType (hd (childNodes n)) = 4)))"

text \<open>
  \<open>values = {}\<close> (line 225) is a plain object, kept as its own properties in the order of
  their creation. \<open>values[key] = value\<close> (lines 238 and 244) overwrites the property \<open>key\<close>
  or creates it behind the others, for every key but \<open>__proto__\<close>: that key addresses the
  accessor that every plain object inherits, which makes \<open>value\<close> the prototype of the
  object when it is an object or \<open>null\<close> and does nothing otherwise. In both cases the
  object gets no property of its own.
\<close>

definition setProperty :: "string \<Rightarrow> 'v \<Rightarrow> (string \<times> 'v) list \<Rightarrow> (string \<times> 'v) list" where
  "setProperty key value object =
     (if key = ''__proto__'' then object else AList.update key value object)"

text \<open>
  The loop of \<open>readFeatureElement\<close> over the element children, on the variables \<open>values\<close>
  and \<open>geometryName\<close> (\<open>None\<close> while it is \<open>undefined\<close>) and the context.
\<close>

fun readFeatureElement_loop ::
  "'g GMLBase \<Rightarrow> node list \<Rightarrow> (string \<times> 'g val) list \<times> string option \<times> ParseContext
     \<Rightarrow> error + ((string \<times> 'g val) list \<times> string option \<times> ParseContext)" where
  "readFeatureElement_loop this [] st = Inr st"
| "readFeatureElement_loop this (n # ns) (values, geometryName, context) =
     (if isAttributeElement n
      then (let value = getAllTextContent n;
                value' = (if ONLY_WHITESPACE_RE value then Undefined else Str value)
            in readFeatureElement_loop this ns
                 (setProperty (localName n) value' values, geometryName, context))
      else (let geometryName' =
                  (if localName n \<noteq> ''boundedBy'' then Some (localName n) else geometryName)
            in case readGeometryElement this n context of
                 Inl e \<Rightarrow> Inl e
               | Inr (geometry, context') \<Rightarrow>
                   readFeatureElement_loop this ns
                     (setProperty (localName n) geometry values, geometryName', context')))"

text \<open>Lines 221 to 255.\<close>

definition readFeatureElement ::
  "'g GMLBase \<Rightarrow> node \<Rightarrow> ParseContext \<Rightarrow> error + ('g val \<times> ParseContext)" where
  "readFeatureElement this node context =
     (let fid = (case getAttribute node ''fid'' of
                   None \<Rightarrow> getAttributeNS node GMLNS ''id''
                 | Some s \<Rightarrow> if s \<noteq> [] then s else getAttributeNS node GMLNS ''id'')
      in case readFeatureElement_loop this (elementChildren node) ([], None, context) of
           Inl e \<Rightarrow> Inl e
         | Inr (values, geometryName, context') \<Rightarrow>
             Inr (Feature values
                    (case geometryName of
                       None \<Rightarrow> None
                     | Some g \<Rightarrow> if g \<noteq> [] then Some g else None)
                    (if fid \<noteq> [] then Some fid else None),
                  context'))"

subsection \<open>Discovery of feature types and namespaces\<close>

text \<open>\<open>s.split(sep)\<close> for a separator of one code unit.\<close>

fun split :: "char \<Rightarrow> string \<Rightarrow> string list" where
  "split sep [] = [[]]"
| "split sep (c # cs) =
     (if c = sep then [] # split sep cs
      else (case split sep cs of [] \<Rightarrow> [[c]] | w # ws \<Rightarrow> (c # w) # ws))"

text \<open>\<open>prefix + count\<close>: the decimal digits of a non-negative integer.\<close>

definition digit :: "nat \<Rightarrow> char" where
  "digit d = char_of (48 + d)"

function numberToString :: "nat \<Rightarrow> string" where
  "numberToString n =
     (if n < 10 then [digit n] else numberToString (n div 10) @ [digit (n mod 10)])"
  by pat_completeness auto
termination
proof (relation "measure id")
  show "wf (measure (id :: nat \<Rightarrow> nat))"
    by simp
next
  fix n :: nat
  assume "\<not> n < 10"
  then have "n div 10 < n"
    by (intro div_less_dividend) simp_all
  then show "(n div 10, n) \<in> measure id"
    by simp
qed

declare numberToString.simps [simp del]

text \<open>
  Lines 136 to 145: the search \<open>for (var candidate in featureNS)\<close> for a prefix already
  bound to \<open>uri\<close>. It returns \<open>key\<close> (empty when no prefix is bound to \<open>uri\<close>) and \<open>count\<close>.
\<close>

fun findCandidate :: "(string \<times> string option) list \<Rightarrow> string option \<Rightarrow> string \<times> nat" where
  "findCandidate [] uri = ([], 0)"
| "findCandidate ((candidate, u) # rest) uri =
     (if u = uri then (candidate, 0)
      else (case findCandidate rest uri of (key, count) \<Rightarrow> (key, Suc count)))"

text \<open>
  Lines 132 to 152: the body of the scan, for one child node, on the variables
  \<open>featureType\<close> and \<open>featureNS\<close>.
\<close>

fun discoverChild ::
  "node \<Rightarrow> string list \<times> (string \<times> string option) list
     \<Rightarrow> string list \<times> (string \<times> string option) list" where
  "discoverChild child (featureType', featureNS') =
     (if nodeType child = 1
      then (let ft = last (split CHR '':'' (nodeName child))
            in if ft \<notin> set featureType'
               then (let uri = namespaceURI child;
                         found = findCandidate featureNS' uri;
                         key = (if fst found = [] then ''p'' @ numberToString (snd found)
                                else fst found);
                         featureNS'' = (if fst found = [] then AList.update key uri featureNS'
                                        else featureNS')
                     in (featureType' @ [key @ '':'' @ ft], featureNS''))
               else (featureType', featureNS'))
      else (featureType', featureNS'))"

text \<open>Lines 131 to 153: the scan of the child nodes.\<close>

fun discoverFeatureTypes ::
  "node list \<Rightarrow> string list \<times> (string \<times> string option) list
     \<Rightarrow> string list \<times> (string \<times> string option) list" where
  "discoverFeatureTypes [] acc = acc"
| "discoverFeatureTypes (child # rest) acc = discoverFeatureTypes rest (discoverChild child acc)"

text \<open>\<open>!featureType\<close>: \<open>undefined\<close> and the empty string are falsy, an array is not.\<close>

fun falsyFeatureType :: "FeatureType \<Rightarrow> bool" where
  "falsyFeatureType FT_undefined = True"
| "falsyFeatureType (FT_string s) = (s = [])"
| "falsyFeatureType (FT_array xs) = False"

text \<open>
  Lines 125 to 159: the feature types and namespaces a \<open>featureMember\<close> or
  \<open>featureMembers\<close> element is read with, and the context as the block leaves it.
  \<open>node.childNodes\<close> is an object and so truthy.
\<close>

definition resolveFeatureTypes ::
  "string \<Rightarrow> node \<Rightarrow> ParseContext \<Rightarrow> FeatureType \<times> FeatureNS \<times> ParseContext" where
  "resolveFeatureTypes localName' node context =
     (if falsyFeatureType (featureType context)
      then (let found = discoverFeatureTypes (childNodes node) ([], []);
                featureType' = FT_array (fst found);
                featureNS' = NS_object (snd found)
            in (featureType', featureNS',
                if localName' \<noteq> ''featureMember''
                then context\<lparr>featureType := featureType', featureNS := featureNS'\<rparr>
                else context))
      else (featureType context, featureNS context, context))"

text \<open>
  Lines 160 to 166. After line 159 the feature type is a non-empty string or an array;
  \<open>undefined\<close> cannot reach line 166 and is given no feature types.
\<close>

definition defaultPrefix :: string where
  "defaultPrefix = ''p0''"

fun featureNSObject :: "FeatureNS \<Rightarrow> (string \<times> string option) list" where
  "featureNSObject (NS_string ns) = [(defaultPrefix, Some ns)]"
| "featureNSObject (NS_object obj) = obj"
| "featureNSObject NS_undefined = []"

fun featureTypesArray :: "FeatureType \<Rightarrow> string list" where
  "featureTypesArray (FT_array xs) = xs"
| "featureTypesArray (FT_string s) = [s]"
| "featureTypesArray FT_undefined = []"

text \<open>
  Lines 167 to 180: the parsers per namespace URI. The two tables are plain objects that
  \<open>parseNode\<close> reads by key only. \<open>parsers['__proto__'] = parser\<close> makes the parser the
  prototype of the table instead of a property of it, and \<open>parsers['__proto__']\<close> reads
  that prototype back: read by key, the table gives the parser in both cases, and so a
  table is kept as its keys and what they give.
\<close>

fun featureParsers ::
  "'g parser \<Rightarrow> string \<Rightarrow> string list \<Rightarrow> (string \<times> 'g parser) list
     \<Rightarrow> (string \<times> 'g parser) list" where
  "featureParsers parser p [] parsers = parsers"
| "featureParsers parser p (t # featureTypes) parsers =
     (let featurePrefix = (if CHR '':'' \<notin> set t then defaultPrefix else hd (split CHR '':'' t))
      in if featurePrefix = p
         then featureParsers parser p featureTypes
                (AList.update (last (split CHR '':'' t)) parser parsers)
         else featureParsers parser p featureTypes parsers)"

fun featureParsersNS ::
  "'g parser \<Rightarrow> string list \<Rightarrow> (string \<times> string option) list
     \<Rightarrow> (string \<times> (string \<times> 'g parser) list) list
     \<Rightarrow> (string \<times> (string \<times> 'g parser) list) list" where
  "featureParsersNS parser featureTypes [] parsersNS = parsersNS"
| "featureParsersNS parser featureTypes ((p, uri) # featureNS') parsersNS =
     featureParsersNS parser featureTypes featureNS'
       (AList.update (propertyKey uri) (featureParsers parser p featureTypes []) parsersNS)"

text \<open>
  Lines 70 to 76: the table the constructor builds. Both entries replace the frame by
  what \<open>readFeaturesInternal\<close> returns for the child.
\<close>

definition FEATURE_COLLECTION_PARSERS ::
  "(node \<Rightarrow> ParseContext \<Rightarrow> error + ('g val \<times> ParseContext))
     \<Rightarrow> (string \<times> (string \<times> 'g parser) list) list" where
  "FEATURE_COLLECTION_PARSERS readFeaturesInternal' =
     [(GMLNS, [(''featureMember'', Replacer readFeaturesInternal'),
               (''featureMembers'', Replacer readFeaturesInternal')])]"

text \<open>
  The table calls its reader on child elements of the node only; this is what makes the
  recursion of \<open>readFeaturesInternal\<close> through the table terminate.
\<close>

lemma parseChildren_FEATURE_COLLECTION_cong:
  "(\<And>n c. n \<in> set cs \<Longrightarrow> f n c = g n c) \<Longrightarrow>
   parseChildren (FEATURE_COLLECTION_PARSERS f) cs st =
   parseChildren (FEATURE_COLLECTION_PARSERS g) cs st"
proof (induction cs arbitrary: st)
  case Nil
  show ?case by simp
next
  case (Cons n ns)
  have head: "\<And>c. f n c = g n c"
    using Cons.prems by simp
  have tail: "\<And>st'. parseChildren (FEATURE_COLLECTION_PARSERS f) ns st' =
                    parseChildren (FEATURE_COLLECTION_PARSERS g) ns st'"
    using Cons.IH Cons.prems by simp
  show ?case
    by (cases st)
       (simp add: FEATURE_COLLECTION_PARSERS_def head
                  tail[unfolded FEATURE_COLLECTION_PARSERS_def] cong: sum.case_cong)
qed

lemma pushParseAndPop_FEATURE_COLLECTION_cong [fundef_cong]:
  "object = object' \<Longrightarrow> node = node' \<Longrightarrow> c = c' \<Longrightarrow>
   (\<And>n c. n \<in> set (childNodes node') \<Longrightarrow> f n c = g n c) \<Longrightarrow>
   pushParseAndPop object (FEATURE_COLLECTION_PARSERS f) node c =
   pushParseAndPop object' (FEATURE_COLLECTION_PARSERS g) node' c'"
  using parseChildren_FEATURE_COLLECTION_cong[of "elementChildren node'" f g]
  by (simp add: pushParseAndPop_def parseNode_def elementChildren_def)

text \<open>
  Lines 111 to 191. The result is the value of \<open>features\<close> and the context as the call
  leaves it; \<open>Inl\<close> is an exception thrown on the way.
\<close>

function readFeaturesInternal ::
  "'g GMLBase \<Rightarrow> node \<Rightarrow> ParseContext \<Rightarrow> error + ('g val \<times> ParseContext)" where
  "readFeaturesInternal this node context =
     (case
        (if localName node = ''FeatureCollection''
         then (if namespaceURI node = Some ''http://www.opengis.net/wfs''
               then pushParseAndPop (Arr [])
                      (FEATURE_COLLECTION_PARSERS (readFeaturesInternal this)) node context
               else pushParseAndPop Null
                      (FEATURE_COLLECTION_PARSERS (readFeaturesInternal this)) node context)
         else if localName node = ''featureMembers'' \<or> localName node = ''featureMember''
         then (case resolveFeatureTypes (localName node) node context of
                 (featureType', featureNS', context') \<Rightarrow>
                   (let parsersNS =
                          featureParsersNS
                            (if localName node = ''featureMembers''
                             then ArrayPusher (readFeatureElement this)
                             else Replacer (readFeatureElement this))
                            (featureTypesArray featureType') (featureNSObject featureNS') []
                    in if localName node = ''featureMember''
                       then pushParseAndPop Undefined parsersNS node context'
                       else pushParseAndPop (Arr []) parsersNS node context'))
         else Inr (Null, context))
      of Inl e \<Rightarrow> Inl e
       | Inr (features, context'') \<Rightarrow>
           Inr (if features = Null then Arr [] else features, context''))"
  by pat_completeness auto
termination
proof (relation "measure (\<lambda>(this, node, context). size node)")
  show "wf (measure (\<lambda>(this :: 'g GMLBase, node, context :: ParseContext). size node))"
    by simp
next
  fix this :: "'g GMLBase" and node n :: node and ctx c :: ParseContext
  assume "n \<in> set (childNodes node)"
  then show "((this, n, c), (this, node, ctx))
               \<in> measure (\<lambda>(this, node, context). size node)"
    by (cases node) (auto simp: less_Suc_eq_le size_list_estimation')
next
  fix this :: "'g GMLBase" and node n :: node and ctx c :: ParseContext
  assume "n \<in> set (childNodes node)"
  then show "((this, n, c), (this, node, ctx))
               \<in> measure (\<lambda>(this, node, context). size node)"
    by (cases node) (auto simp: less_Suc_eq_le size_list_estimation')
qed

declare readFeaturesInternal.simps [simp del]

text \<open>
  Lines 578 to 588. The options that \<open>getReadOptions\<close> of FeatureFormat adds name
  projections only, which no reader of GMLBase looks at; they are left out.
\<close>

definition readFeaturesFromNode :: "'g GMLBase \<Rightarrow> node \<Rightarrow> error + 'g val" where
  "readFeaturesFromNode this node =
     (let options = \<lparr>featureType = this_featureType this, featureNS = this_featureNS this,
                       srsName = None, srsDimension = None\<rparr>
      in case readFeaturesInternal this node options of
           Inl e \<Rightarrow> Inl e
         | Inr (features, options') \<Rightarrow> Inr (if truthy features then features else Arr []))"

text \<open>
  A condition under which no reader meets a \<open>null\<close> \<open>firstElementChild\<close>: every element
  of the tree either is read as an attribute value or has a child element.
\<close>

fun propertiesReadable :: "node \<Rightarrow> bool" where
  "propertiesReadable (Element q l u a c) =
     ((isAttributeElement (Element q l u a c) \<or> firstElementChild (Element q l u a c) \<noteq> None) \<and>
      list_all propertiesReadable c)"
| "propertiesReadable (Text v) = True"
| "propertiesReadable (CDATASection v) = True"
| "propertiesReadable (Comment v) = True"

section \<open>GMLBase: geometries\<close>

text \<open>
  A geometry as GMLBase builds it: \<open>new Point(null)\<close> followed by
  \<open>setFlatCoordinates(layout, flatCoordinates)\<close>, and for a polygon
  \<open>setFlatCoordinates(layout, flatCoordinates, ends)\<close>. The coordinates are JavaScript
  numbers; the readers never compute with them, so their type \<open>'n\<close> is left open.
\<close>

datatype GeometryLayout = XY | XYZ | XYM | XYZM

datatype GeometryType = POINT | LINE_STRING | LINEAR_RING | POLYGON

record 'n SimpleGeometry =
  getType :: GeometryType
  layout :: GeometryLayout
  flatCoordinates :: "'n list"

record 'n Polygon = "'n SimpleGeometry" +
  ends :: "nat list"

text \<open>
  \<open>GEOMETRY_FLAT_COORDINATES_PARSERS node objectStack0\<close> stands for
  \<open>pushParseAndPop(null, this.GEOMETRY_FLAT_COORDINATES_PARSERS_, node, objectStack, this)\<close>:
  the table is filled in by the subclasses, so the array it leaves on the stack (\<open>None\<close> is
  \<open>null\<close>) is left open.
\<close>

definition readFlatCoordinatesFromNode ::
  "(node \<Rightarrow> ParseContext \<Rightarrow> 'n list option) \<Rightarrow> node \<Rightarrow> ParseContext \<Rightarrow> 'n list option" where
  "readFlatCoordinatesFromNode GEOMETRY_FLAT_COORDINATES_PARSERS node objectStack0 =
     GEOMETRY_FLAT_COORDINATES_PARSERS node objectStack0"

definition readPoint ::
  "(node \<Rightarrow> ParseContext \<Rightarrow> 'n list option) \<Rightarrow> node \<Rightarrow> ParseContext
     \<Rightarrow> 'n SimpleGeometry option" where
  "readPoint GEOMETRY_FLAT_COORDINATES_PARSERS node objectStack0 =
     (case readFlatCoordinatesFromNode GEOMETRY_FLAT_COORDINATES_PARSERS node objectStack0 of
        None \<Rightarrow> None
      | Some flatCoordinates' \<Rightarrow>
          Some \<lparr>getType = POINT, layout = XYZ, flatCoordinates = flatCoordinates'\<rparr>)"

definition readLineString ::
  "(node \<Rightarrow> ParseContext \<Rightarrow> 'n list option) \<Rightarrow> node \<Rightarrow> ParseContext
     \<Rightarrow> 'n SimpleGeometry option" where
  "readLineString GEOMETRY_FLAT_COORDINATES_PARSERS node objectStack0 =
     (case readFlatCoordinatesFromNode GEOMETRY_FLAT_COORDINATES_PARSERS node objectStack0 of
        None \<Rightarrow> None
      | Some flatCoordinates' \<Rightarrow>
          Some \<lparr>getType = LINE_STRING, layout = XYZ, flatCoordinates = flatCoordinates'\<rparr>)"

definition readLinearRing ::
  "(node \<Rightarrow> ParseContext \<Rightarrow> 'n list option) \<Rightarrow> node \<Rightarrow> ParseContext
     \<Rightarrow> 'n SimpleGeometry option" where
  "readLinearRing GEOMETRY_FLAT_COORDINATES_PARSERS node objectStack0 =
     (case readFlatCoordinatesFromNode GEOMETRY_FLAT_COORDINATES_PARSERS node objectStack0 of
        None \<Rightarrow> None
      | Some flatCoordinates' \<Rightarrow>
          Some \<lparr>getType = LINEAR_RING, layout = XYZ, flatCoordinates = flatCoordinates'\<rparr>)"

subsection \<open>The coordinate parsers of the subclasses\<close>

text \<open>
  Modelled from the spec: the readers of coordinates belong to the subclasses GML2 and
  GML3, which are missing. The spec has them parse whitespace-delimited coordinate tuples
  from the text content. \<open>trim\<close> takes the white space off both ends of the text.
\<close>

definition trim :: "string \<Rightarrow> string" where
  "trim s = rev (dropWhile isWhitespace (rev (dropWhile isWhitespace s)))"

text \<open>
  Modelled from the spec: the cutting of the text into tuples is part of the missing
  readers. The tuples are delimited by white space: the text is cut at every run of
  white space, as \<open>s.split(/\s+/)\<close> cuts it, so that the empty text holds one tuple, the
  empty one.
\<close>

function splitWhitespace :: "string \<Rightarrow> string list" where
  "splitWhitespace [] = [[]]"
| "splitWhitespace (c # cs) =
     (if isWhitespace c then [] # splitWhitespace (dropWhile isWhitespace cs)
      else (case splitWhitespace cs of [] \<Rightarrow> [[c]] | w # ws \<Rightarrow> (c # w) # ws))"
  by pat_completeness auto
termination
proof (relation "measure length")
  show "wf (measure (length :: string \<Rightarrow> nat))"
    by simp
next
  fix c :: char and cs :: string
  have "length (dropWhile isWhitespace cs) \<le> length cs"
    by (rule length_dropWhile_le)
  then show "(dropWhile isWhitespace cs, c # cs) \<in> measure length"
    by simp
next
  fix c :: char and cs :: string
  show "(cs, c # cs) \<in> measure length"
    by simp
qed

text \<open>
  Modelled from the spec: the reader of the coordinates of one element is missing. It
  parses the whitespace-delimited coordinate tuples of the text content into a flat
  coordinate sequence: the numbers of the tuples, one tuple behind the other. How the
  text of one tuple gives its numbers (the separator inside a tuple, the order of the
  axes, what stands for a component that is not written) is not in the spec and is left
  open as \<open>readTuple\<close>, which may look at the context.
\<close>

definition readFlatCoordinates ::
  "(ParseContext \<Rightarrow> string \<Rightarrow> 'n list) \<Rightarrow> node \<Rightarrow> ParseContext \<Rightarrow> 'n list" where
  "readFlatCoordinates readTuple node objectStack0 =
     concat (map (readTuple objectStack0) (splitWhitespace (trim (getAllTextContent node))))"

text \<open>
  Modelled from the spec: the table \<open>GEOMETRY_FLAT_COORDINATES_PARSERS_\<close> is filled in by
  the missing subclasses. Dispatch is keyed by namespace, then by local name: the table
  holds, for the GML namespace and each of the element names of the subclass (left open
  as \<open>names\<close>), a replacer of the frame by the flat coordinates read from the element.
  The array of numbers is carried as the value of open type.
\<close>

definition GEOMETRY_FLAT_COORDINATES_PARSERS_table ::
  "string list \<Rightarrow> (ParseContext \<Rightarrow> string \<Rightarrow> 'n list)
     \<Rightarrow> (string \<times> (string \<times> 'n list parser) list) list" where
  "GEOMETRY_FLAT_COORDINATES_PARSERS_table names readTuple =
     [(GMLNS,
       map (\<lambda>name. (name, Replacer (\<lambda>n c. Inr (Geom (readFlatCoordinates readTuple n c), c))))
         names)]"

text \<open>
  \<open>pushParseAndPop(null, this.GEOMETRY_FLAT_COORDINATES_PARSERS_, node, objectStack, this)\<close>
  (lines 387 and 450) with this table: the array left on the stack, \<open>None\<close> while the
  frame is still \<open>null\<close>. No reader of the table throws.
\<close>

definition parseFlatCoordinates ::
  "string list \<Rightarrow> (ParseContext \<Rightarrow> string \<Rightarrow> 'n list) \<Rightarrow> node \<Rightarrow> ParseContext
     \<Rightarrow> 'n list option" where
  "parseFlatCoordinates names readTuple node objectStack0 =
     (case pushParseAndPop Null (GEOMETRY_FLAT_COORDINATES_PARSERS_table names readTuple)
             node objectStack0 of
        Inl e \<Rightarrow> None
      | Inr (frame, objectStack0') \<Rightarrow>
          (case frame of Geom flatCoordinates' \<Rightarrow> Some flatCoordinates' | _ \<Rightarrow> None))"

text \<open>Lines 385 to 395: the flat coordinates of a linear ring.\<close>

definition readFlatLinearRing ::
  "(node \<Rightarrow> ParseContext \<Rightarrow> 'n list option) \<Rightarrow> node \<Rightarrow> ParseContext \<Rightarrow> 'n list option" where
  "readFlatLinearRing GEOMETRY_FLAT_COORDINATES_PARSERS node objectStack0 =
     (case GEOMETRY_FLAT_COORDINATES_PARSERS node objectStack0 of
        None \<Rightarrow> None
      | Some ring \<Rightarrow> Some ring)"

subsection \<open>Polygons\<close>

text \<open>
  Modelled from the spec: \<open>extend(arr, data)\<close> of ol/array.js is missing. The rings' flat
  coordinates are concatenated in order: it appends the elements of \<open>data\<close> to \<open>arr\<close>.
\<close>

definition extend :: "'a list \<Rightarrow> 'a list \<Rightarrow> 'a list" where
  "extend arr data = arr @ data"

text \<open>
  The loop of \<open>readPolygon\<close> over \<open>flatLinearRings[1]\<close>, \<open>flatLinearRings[2]\<close>, ... on the
  variables \<open>flatCoordinates\<close> and \<open>ends\<close>.
\<close>

fun readPolygon_loop :: "'n list list \<Rightarrow> 'n list \<times> nat list \<Rightarrow> 'n list \<times> nat list" where
  "readPolygon_loop [] acc = acc"
| "readPolygon_loop (ring # rings) (flatCoordinates', ends') =
     readPolygon_loop rings
       (extend flatCoordinates' ring, ends' @ [length (extend flatCoordinates' ring)])"

text \<open>
  \<open>FLAT_LINEAR_RINGS_PARSERS node objectStack0\<close> stands for
  \<open>pushParseAndPop([null], this.FLAT_LINEAR_RINGS_PARSERS_, node, objectStack, this)\<close>, a
  table of the subclasses. What it leaves on the stack is \<open>None\<close> when it is falsy, and
  otherwise the array \<open>flatLinearRings\<close>: its entry 0 (\<open>None\<close> while it is still \<open>null\<close>,
  the exterior ring once one was decoded) and the rings pushed behind it.
\<close>

definition readPolygon ::
  "(node \<Rightarrow> ParseContext \<Rightarrow> ('n list option \<times> 'n list list) option) \<Rightarrow> node \<Rightarrow> ParseContext
     \<Rightarrow> 'n Polygon option" where
  "readPolygon FLAT_LINEAR_RINGS_PARSERS node objectStack0 =
     (case FLAT_LINEAR_RINGS_PARSERS node objectStack0 of
        None \<Rightarrow> None
      | Some (flatLinearRings0, rings) \<Rightarrow>
          (case flatLinearRings0 of
             None \<Rightarrow> None
           | Some exterior \<Rightarrow>
               (case readPolygon_loop rings (exterior, [length exterior]) of
                  (flatCoordinates', ends') \<Rightarrow>
                    Some \<lparr>getType = POLYGON, layout = XYZ,
                          flatCoordinates = flatCoordinates', ends = ends'\<rparr>)))"

section \<open>Sphere\<close>

text \<open>
  ol/Sphere.js is not among the sources, only its test is. The
  spec gives \<open>haversineDistance\<close> as \<open>a = sin\<^sup>2(\<Delta>\<phi>/2) + cos \<phi>1 cos \<phi>2 sin\<^sup>2(\<Delta>\<lambda>/2)\<close>,
  \<open>d = 2 R atan2(\<surd>a, \<surd>(1 - a))\<close> on coordinates in degrees, and \<open>getLength\<close> as the sum of
  the haversine distances between consecutive vertices of every line-like sub-geometry:
  the segments of a LineString, MultiLineString and GeometryCollection by recursion over
  their members, Point and MultiPoint contributing 0. Numbers are real numbers here, and a
  coordinate is a pair of longitude and latitude; the geometries are the ones the test
  builds, already in geographic coordinates.
\<close>

type_synonym Coordinate = "real \<times> real"

datatype Geometry =
  Point Coordinate
| MultiPoint "Coordinate list"
| LineString "Coordinate list"
| MultiLineString "Coordinate list list"
| GeometryCollection "Geometry list"

text \<open>
  Modelled from the spec: \<open>toRadians\<close> of ol/math.js is missing. Trigonometric work is in
  radians; inputs in degrees are converted before use.
\<close>

definition toRadians :: "real \<Rightarrow> real" where
  "toRadians angleInDegrees = angleInDegrees * pi / 180"

text \<open>
  Modelled from the spec: \<open>atan2\<close> of the spec's formula is \<open>Math.atan2(y, x)\<close>, the angle
  of the point \<open>(x, y)\<close>.
\<close>

definition atan2 :: "real \<Rightarrow> real \<Rightarrow> real" where
  "atan2 y x =
     (if 0 < x then arctan (y / x)
      else if x < 0 \<and> 0 \<le> y then arctan (y / x) + pi
      else if x < 0 then arctan (y / x) - pi
      else if 0 < y then pi / 2
      else if y < 0 then - (pi / 2)
      else 0)"

text \<open>
  Modelled from the spec: \<open>haversineDistance(c1, c2)\<close> of ol/Sphere.js is missing. It is
  the great-circle distance between two coordinates in degrees by the haversine formula,
  on a sphere of the given radius.
\<close>

definition haversineDistance :: "real \<Rightarrow> Coordinate \<Rightarrow> Coordinate \<Rightarrow> real" where
  "haversineDistance radius c1 c2 =
     (let lat1 = toRadians (snd c1);
          lat2 = toRadians (snd c2);
          deltaLatBy2 = (lat2 - lat1) / 2;
          deltaLonBy2 = toRadians (fst c2 - fst c1) / 2;
          a = sin deltaLatBy2 * sin deltaLatBy2 +
              sin deltaLonBy2 * sin deltaLonBy2 * cos lat1 * cos lat2
      in 2 * radius * atan2 (sqrt a) (sqrt (1 - a)))"

text \<open>
  Modelled from the spec: the length of one line in \<open>getLength\<close> of ol/Sphere.js is
  missing. It sums the haversine distances between consecutive vertices.
\<close>

fun lineLength :: "real \<Rightarrow> Coordinate list \<Rightarrow> real" where
  "lineLength radius (c1 # c2 # coordinates) =
     haversineDistance radius c1 c2 + lineLength radius (c2 # coordinates)"
| "lineLength radius [c] = 0"
| "lineLength radius [] = 0"

text \<open>
  Modelled from the spec: \<open>getLength(geometry, options)\<close> of ol/Sphere.js is missing. It
  sums over every line-like sub-geometry: the segments of a LineString; MultiLineString
  and GeometryCollection recurse over their members; Point and MultiPoint contribute 0.
\<close>

fun getLength :: "real \<Rightarrow> Geometry \<Rightarrow> real" where
  "getLength radius (Point c) = 0"
| "getLength radius (MultiPoint coordinates) = 0"
| "getLength radius (LineString coordinates) = lineLength radius coordinates"
| "getLength radius (MultiLineString lines) = sum_list (map (lineLength radius) lines)"
| "getLength radius (GeometryCollection geometries) =
     sum_list (map (getLength radius) geometries)"

section \<open>Example inputs\<close>

text \<open>
  Concrete trees, contexts and parser results on which the theorems below are evaluated.
  \<open>gml0\<close> is a format without feature type whose geometry parsers recognise nothing.
  \<open>gmlNames\<close> is a format without feature type whose geometry parsers decode the first
  child element of the node, when it lies in the GML namespace, into a geometry that is
  kept as the local name of that element.
\<close>

definition context0 :: ParseContext where
  "context0 = \<lparr>featureType = FT_undefined, featureNS = NS_undefined,
                srsName = None, srsDimension = None\<rparr>"

definition polygonNode :: node where
  "polygonNode = Element ''gml:Polygon'' ''Polygon'' (Some GMLNS) [] []"

definition twoRings :: "node \<Rightarrow> ParseContext \<Rightarrow> (real list option \<times> real list list) option" where
  "twoRings n c = Some (Some [0, 0, 0, 4, 0, 0, 0, 4, 0, 0, 0, 0],
                        [[1, 1, 0, 2, 1, 0, 1, 2, 0, 1, 1, 0]])"

text \<open>
  \<open>decimal\<close> stands in for \<open>parseFloat\<close> on a sequence of decimal digits, and
  \<open>commaTuple\<close> reads a tuple whose numbers are separated by commas, with 0 for a number
  that is not written.
\<close>

definition decimal :: "string \<Rightarrow> nat" where
  "decimal s = foldl (\<lambda>n ch. 10 * n + (of_char ch - 48)) 0 s"

definition commaTuple :: "ParseContext \<Rightarrow> string \<Rightarrow> nat list" where
  "commaTuple c s =
     (let coords = split CHR '','' s
      in [decimal (coords ! 0),
          if 1 < length coords then decimal (coords ! 1) else 0,
          if 2 < length coords then decimal (coords ! 2) else 0])"

definition pointNode2D :: node where
  "pointNode2D = Element ''gml:Point'' ''Point'' (Some GMLNS) [((None, ''srsDimension''), ''2'')]
     [Element ''gml:coordinates'' ''coordinates'' (Some GMLNS) [] [Text ''1,2'']]"

definition lineStringNode2D :: node where
  "lineStringNode2D = Element ''gml:LineString'' ''LineString'' (Some GMLNS) []
     [Text [CHR 0x0A, CHR '' ''],
      Element ''gml:coordinates'' ''coordinates'' (Some GMLNS) []
        [Text ('' 1,2 3,4'' @ [CHR 0x0A] @ ''5,6 '')]]"

definition twoNamespaces :: node where
  "twoNamespaces =
     Element ''gml:featureMembers'' ''featureMembers'' (Some GMLNS) []
       [Element ''topp:road'' ''road'' (Some ''http://topp'') [] [],
        Text '' '',
        Element ''x:river'' ''river'' (Some ''http://x'') [] []]"

definition gml0 :: "unit GMLBase" where
  "gml0 = \<lparr>this_featureType = FT_undefined, this_featureNS = NS_undefined,
            GEOMETRY_PARSERS = (\<lambda>n c. Inr None), transformWithOptions = (\<lambda>g c. g)\<rparr>"

definition gmlNames :: "string GMLBase" where
  "gmlNames = \<lparr>this_featureType = FT_undefined, this_featureNS = NS_undefined,
                GEOMETRY_PARSERS =
                  (\<lambda>n c. Inr (case firstElementChild n of
                                None \<Rightarrow> None
                              | Some child \<Rightarrow>
                                  if namespaceURI child = Some GMLNS then Some (localName child)
                                  else None)),
                transformWithOptions = (\<lambda>g c. g)\<rparr>"

definition boundedByOnly :: node where
  "boundedByOnly =
     Element ''topp:road'' ''road'' (Some ''http://topp'') [((None, ''fid''), ''road.1'')]
       [Element ''topp:name'' ''name'' (Some ''http://topp'') [] [Text ''Main Street''],
        Element ''gml:boundedBy'' ''boundedBy'' (Some GMLNS) []
          [Element ''gml:Box'' ''Box'' (Some GMLNS) [] []]]"

definition boundedByBox :: node where
  "boundedByBox =
     Element ''gml:boundedBy'' ''boundedBy'' (Some GMLNS) []
       [Element ''gml:Box'' ''Box'' (Some GMLNS) [] []]"

definition geomA :: node where
  "geomA =
     Element ''topp:geomA'' ''geomA'' (Some ''http://topp'') []
       [Element ''gml:Point'' ''Point'' (Some GMLNS) [] []]"

definition geomB :: node where
  "geomB =
     Element ''topp:geomB'' ''geomB'' (Some ''http://topp'') []
       [Element ''gml:Point'' ''Point'' (Some GMLNS) [] []]"

definition twoGeometries :: node where
  "twoGeometries =
     Element ''topp:road'' ''road'' (Some ''http://topp'') [((None, ''fid''), ''road.2'')]
       [boundedByBox, geomA, geomB]"

definition roadWithComment :: node where
  "roadWithComment =
     Element ''topp:road'' ''road'' (Some ''http://topp'') [((None, ''fid''), ''road.1'')]
       [Element ''topp:name'' ''name'' (Some ''http://topp'') [] [Text ''Main Street''],
        Element ''topp:note'' ''note'' (Some ''http://topp'') [] [Comment ''none'']]"

definition membersWithComment :: node where
  "membersWithComment =
     Element ''gml:featureMembers'' ''featureMembers'' (Some GMLNS) [] [roadWithComment]"

definition memberRoad :: node where
  "memberRoad =
     Element ''gml:featureMember'' ''featureMember'' (Some GMLNS) []
       [Element ''topp:road'' ''road'' (Some ''http://topp'') [((None, ''fid''), ''road.1'')]
          [Element ''topp:name'' ''name'' (Some ''http://topp'') [] [Text ''Main Street'']]]"

definition memberEmpty :: node where
  "memberEmpty = Element ''gml:featureMember'' ''featureMember'' (Some GMLNS) [] []"

definition membersRoad :: node where
  "membersRoad =
     Element ''gml:featureMembers'' ''featureMembers'' (Some GMLNS) []
       [Element ''topp:road'' ''road'' (Some ''http://topp'') [((None, ''fid''), ''road.1'')]
          [Element ''topp:name'' ''name'' (Some ''http://topp'') [] [Text ''Main Street'']]]"

definition memberRiver :: node where
  "memberRiver =
     Element ''gml:featureMember'' ''featureMember'' (Some GMLNS) []
       [Element ''topp:river'' ''river'' (Some ''http://topp'') [((None, ''fid''), ''river.1'')]
          [Element ''topp:name'' ''name'' (Some ''http://topp'') [] [Text ''Mill Creek'']]]"

definition collectionOfMembers :: node where
  "collectionOfMembers =
     Element ''wfs:FeatureCollection'' ''FeatureCollection'' (Some ''http://www.opengis.net/wfs'') []
       [memberRoad, memberRiver]"

section \<open>Polygons: the rings and their end offsets\<close>

lemma readPolygon_loop_flat:
  "fst (readPolygon_loop rings (flat, es)) = flat @ concat rings"
  by (induction rings arbitrary: flat es) (simp_all add: extend_def)

lemma map_upt_shift:
  "map f [0..<Suc n] = f 0 # map (\<lambda>k. f (Suc k)) [0..<n]"
  by (simp add: upt_rec[of 0] map_Suc_upt[symmetric] del: upt_Suc)

lemma readPolygon_loop_ends:
  "snd (readPolygon_loop rings (flat, es)) =
     es @ map (\<lambda>k. length flat + length (concat (take (Suc k) rings))) [0..<length rings]"
proof (induction rings arbitrary: flat es)
  case Nil
  show ?case by simp
next
  case (Cons ring rings)
  have "snd (readPolygon_loop (ring # rings) (flat, es)) =
          snd (readPolygon_loop rings (flat @ ring, es @ [length (flat @ ring)]))"
    by (simp add: extend_def)
  also have "\<dots> = (es @ [length (flat @ ring)]) @
       map (\<lambda>k. length (flat @ ring) + length (concat (take (Suc k) rings))) [0..<length rings]"
    by (rule Cons.IH)
  also have "\<dots> = es @
       map (\<lambda>k. length flat + length (concat (take (Suc k) (ring # rings)))) [0..<length (ring # rings)]"
    by (simp add: map_upt_shift del: upt_Suc)
  finally show ?case .
qed

lemma readPolygon_loop_last:
  "es \<noteq> [] \<Longrightarrow> last es = length flat \<Longrightarrow>
   snd (readPolygon_loop rings (flat, es)) \<noteq> [] \<and>
   last (snd (readPolygon_loop rings (flat, es))) = length (fst (readPolygon_loop rings (flat, es)))"
  by (induction rings arbitrary: flat es) (simp_all add: extend_def)

lemma sorted_le_last:
  "sorted (es :: nat list) \<Longrightarrow> e \<in> set es \<Longrightarrow> e \<le> last es"
  by (induction es) auto

lemma readPolygon_loop_sorted:
  "sorted es \<Longrightarrow> es \<noteq> [] \<Longrightarrow> last es = length flat \<Longrightarrow>
   sorted (snd (readPolygon_loop rings (flat, es)))"
proof (induction rings arbitrary: flat es)
  case Nil
  then show ?case by simp
next
  case (Cons ring rings)
  have "\<forall>e \<in> set es. e \<le> length flat"
    using Cons.prems sorted_le_last[of es] by auto
  then have "sorted (es @ [length (extend flat ring)])"
    using Cons.prems by (auto simp: sorted_append extend_def)
  then show ?case
    using Cons.IH[of "es @ [length (extend flat ring)]" "extend flat ring"] by simp
qed

lemma readPolygon_loop_strict:
  "sorted_wrt (<) es \<Longrightarrow> es \<noteq> [] \<Longrightarrow> last es = length flat \<Longrightarrow>
   list_all (\<lambda>ring. ring \<noteq> []) rings \<Longrightarrow>
   sorted_wrt (<) (snd (readPolygon_loop rings (flat, es)))"
proof (induction rings arbitrary: flat es)
  case Nil
  then show ?case by simp
next
  case (Cons ring rings)
  have "sorted es"
    using Cons.prems(1) by (simp add: strict_sorted_iff)
  then have "\<forall>e \<in> set es. e \<le> length flat"
    using Cons.prems sorted_le_last[of es] by auto
  moreover have "length flat < length (extend flat ring)"
    using Cons.prems(4) by (simp add: extend_def)
  ultimately have "sorted_wrt (<) (es @ [length (extend flat ring)])"
    using Cons.prems by (auto simp: sorted_wrt_append)
  then show ?case
    using Cons.IH[of "es @ [length (extend flat ring)]" "extend flat ring"] Cons.prems(4) by simp
qed

lemma readPolygon_exterior:
  "P node c = Some (Some exterior, rings) \<Longrightarrow>
   readPolygon P node c =
     Some \<lparr>getType = POLYGON, layout = XYZ,
           flatCoordinates = fst (readPolygon_loop rings (exterior, [length exterior])),
           ends = snd (readPolygon_loop rings (exterior, [length exterior]))\<rparr>"
  by (simp add: readPolygon_def split: prod.splits)

text \<open>
  Claim C5. \<open>readPolygon\<close> returns \<open>undefined\<close> exactly when no exterior ring was
  decoded (the parsers left nothing, or entry 0 of the array is still \<open>null\<close>). Otherwise
  it returns a polygon whose flat coordinates are the rings' flat coordinates
  concatenated in order, the exterior ring first, and whose \<open>ends\<close> hold one entry per
  ring, the cumulative end offset of that ring. With one exterior and one interior ring
  \<open>ends\<close> has length 2 and its second entry is the number of flat coordinates.
\<close>

theorem readPolygon_rings:
  "(readPolygon P node c = None \<longleftrightarrow>
      (P node c = None \<or> (\<exists>rings. P node c = Some (None, rings)))) \<and>
   (\<forall>exterior rings. P node c = Some (Some exterior, rings) \<longrightarrow>
      readPolygon P node c =
        Some \<lparr>getType = POLYGON, layout = XYZ,
              flatCoordinates = concat (exterior # rings),
              ends = map (\<lambda>k. length (concat (take (Suc k) (exterior # rings))))
                       [0..<length (exterior # rings)]\<rparr>) \<and>
   (\<forall>exterior interior. P node c = Some (Some exterior, [interior]) \<longrightarrow>
      (\<exists>polygon. readPolygon P node c = Some polygon \<and> length (ends polygon) = 2 \<and>
         ends polygon ! 1 = length (flatCoordinates polygon)))"
proof (intro conjI allI impI)
  show "readPolygon P node c = None \<longleftrightarrow>
          (P node c = None \<or> (\<exists>rings. P node c = Some (None, rings)))"
    by (auto simp: readPolygon_def split: option.splits prod.splits)
next
  fix exterior rings
  assume parsed: "P node c = Some (Some exterior, rings)"
  have "map (\<lambda>k. length (concat (take (Suc k) (exterior # rings)))) [0..<length (exterior # rings)] =
        [length exterior] @
        map (\<lambda>k. length exterior + length (concat (take (Suc k) rings))) [0..<length rings]"
    by (simp add: map_upt_shift del: upt_Suc)
  then show "readPolygon P node c =
        Some \<lparr>getType = POLYGON, layout = XYZ,
              flatCoordinates = concat (exterior # rings),
              ends = map (\<lambda>k. length (concat (take (Suc k) (exterior # rings))))
                       [0..<length (exterior # rings)]\<rparr>"
    using readPolygon_exterior[of P node c, OF parsed]
    by (simp only: readPolygon_loop_flat readPolygon_loop_ends) simp
next
  fix exterior interior
  assume parsed: "P node c = Some (Some exterior, [interior])"
  show "\<exists>polygon. readPolygon P node c = Some polygon \<and> length (ends polygon) = 2 \<and>
         ends polygon ! 1 = length (flatCoordinates polygon)"
    using readPolygon_exterior[of P node c, OF parsed] by (simp add: extend_def)
qed

theorem readPolygon_rings_witness:
  "twoRings polygonNode context0 =
     Some (Some [0, 0, 0, 4, 0, 0, 0, 4, 0, 0, 0, 0], [[1, 1, 0, 2, 1, 0, 1, 2, 0, 1, 1, 0]]) \<and>
   readPolygon twoRings polygonNode context0 =
     Some \<lparr>getType = POLYGON, layout = XYZ,
           flatCoordinates = [0, 0, 0, 4, 0, 0, 0, 4, 0, 0, 0, 0, 1, 1, 0, 2, 1, 0, 1, 2, 0, 1, 1, 0],
           ends = [12, 24]\<rparr>"
proof -
  have parsed: "twoRings polygonNode context0 =
     Some (Some [0, 0, 0, 4, 0, 0, 0, 4, 0, 0, 0, 0], [[1, 1, 0, 2, 1, 0, 1, 2, 0, 1, 1, 0]])"
    by (simp add: twoRings_def)
  have upt2: "[0..<2] = [0, Suc 0]"
    by (simp add: upt_rec)
  show ?thesis
    using readPolygon_rings[of twoRings polygonNode context0] parsed
    by (simp add: upt2)
qed

text \<open>
  Claim C6. For every polygon that \<open>readPolygon\<close> returns, \<open>ends\<close> is strictly
  increasing and its last value is the number of flat coordinates. The rings behind
  entry 0 are the arrays that \<open>readFlatLinearRing_\<close> returned for the interior rings; the
  coordinate readers leave the numbers of at least one tuple in each of them (lemma
  \<open>readFlatLinearRing_not_empty\<close>), which is the condition on \<open>rings\<close> here. The
  exterior ring may be empty.
\<close>

theorem readPolygon_ends_increasing:
  assumes parsed: "P node c = Some (slot, rings)"
    and rings: "list_all (\<lambda>ring. ring \<noteq> []) rings"
    and result: "readPolygon P node c = Some polygon"
  shows "sorted_wrt (<) (ends polygon) \<and>
         last (ends polygon) = length (flatCoordinates polygon) \<and>
         length (ends polygon) = Suc (length rings)"
proof -
  obtain exterior where slot: "slot = Some exterior"
    using parsed result by (cases slot) (auto simp: readPolygon_def)
  let ?loop = "readPolygon_loop rings (exterior, [length exterior])"
  have polygon: "ends polygon = snd ?loop" "flatCoordinates polygon = fst ?loop"
    using readPolygon_exterior[of P node c exterior rings] parsed slot result by auto
  have "snd ?loop \<noteq> [] \<and> last (snd ?loop) = length (fst ?loop)"
    by (rule readPolygon_loop_last) simp_all
  moreover have "sorted_wrt (<) (snd ?loop)"
    using rings by (intro readPolygon_loop_strict) simp_all
  moreover have "length (snd ?loop) = Suc (length rings)"
    by (simp add: readPolygon_loop_ends)
  ultimately show ?thesis
    using polygon by simp
qed

theorem readPolygon_ends_increasing_witness:
  "twoRings polygonNode context0 =
     Some (Some [0, 0, 0, 4, 0, 0, 0, 4, 0, 0, 0, 0], [[1, 1, 0, 2, 1, 0, 1, 2, 0, 1, 1, 0]]) \<and>
   list_all (\<lambda>ring. ring \<noteq> []) [[1, 1, 0, 2, 1, 0, 1, 2, 0, 1, 1, 0 :: real]] \<and>
   readPolygon twoRings polygonNode context0 \<noteq> None \<and>
   ends (the (readPolygon twoRings polygonNode context0)) = [12, 24] \<and>
   sorted_wrt (<) (ends (the (readPolygon twoRings polygonNode context0))) \<and>
   last (ends (the (readPolygon twoRings polygonNode context0))) =
     length (flatCoordinates (the (readPolygon twoRings polygonNode context0)))"
proof -
  have parsed: "twoRings polygonNode context0 =
     Some (Some [0, 0, 0, 4, 0, 0, 0, 4, 0, 0, 0, 0], [[1, 1, 0, 2, 1, 0, 1, 2, 0, 1, 1, 0]])"
    by (simp add: twoRings_def)
  have rings: "list_all (\<lambda>ring. ring \<noteq> []) [[1, 1, 0, 2, 1, 0, 1, 2, 0, 1, 1, 0 :: real]]"
    by simp
  obtain polygon where result: "readPolygon twoRings polygonNode context0 = Some polygon"
    and ends: "ends polygon = [12, 24]"
    using readPolygon_exterior[of twoRings polygonNode context0, OF parsed]
    by (simp add: extend_def)
  show ?thesis
    using readPolygon_ends_increasing[OF parsed rings result] parsed rings result ends by simp
qed

section \<open>Points, line strings and linear rings\<close>

lemma map_of_names:
  "map_of (map (\<lambda>name. (name, p)) names) l = (if l \<in> set names then Some p else None)"
  by (induction names) auto

lemma propertyKey_GMLNS: "propertyKey u = GMLNS \<longleftrightarrow> u = Some GMLNS"
  by (cases u) (simp_all add: propertyKey_def GMLNS_def)

lemma parseChildren_flat:
  "parseChildren (GEOMETRY_FLAT_COORDINATES_PARSERS_table names readTuple) cs (c, frame) =
     Inr (c, case filter (\<lambda>n. namespaceURI n = Some GMLNS \<and> localName n \<in> set names) cs of
               [] \<Rightarrow> frame
             | x # xs \<Rightarrow> Geom (readFlatCoordinates readTuple (last (x # xs)) c))"
proof (induction cs arbitrary: frame)
  case Nil
  show ?case by simp
next
  case (Cons n ns)
  show ?case
  proof (cases "namespaceURI n = Some GMLNS \<and> localName n \<in> set names")
    case True
    then show ?thesis
      using Cons.IH[of "Geom (readFlatCoordinates readTuple n c)"]
      by (simp add: GEOMETRY_FLAT_COORDINATES_PARSERS_table_def map_of_names propertyKey_GMLNS
               split: list.splits)
  next
    case False
    then show ?thesis
      using Cons.IH[of frame]
      by (auto simp: GEOMETRY_FLAT_COORDINATES_PARSERS_table_def map_of_names propertyKey_GMLNS)
  qed
qed

lemma parseFlatCoordinates_last:
  "parseFlatCoordinates names readTuple node c =
     (case filter (\<lambda>n. namespaceURI n = Some GMLNS \<and> localName n \<in> set names)
             (elementChildren node) of
        [] \<Rightarrow> None
      | x # xs \<Rightarrow> Some (readFlatCoordinates readTuple (last (x # xs)) c))"
  by (simp add: parseFlatCoordinates_def pushParseAndPop_def parseNode_def parseChildren_flat
           split: list.splits)

lemma splitWhitespace_not_Nil: "splitWhitespace s \<noteq> []"
  by (cases s) (simp_all split: list.splits)

text \<open>
  The cut is at white space: no tuple holds white space, and a text without white space
  is one tuple.
\<close>

lemma splitWhitespace_no_whitespace:
  "w \<in> set (splitWhitespace s) \<Longrightarrow> ch \<in> set w \<Longrightarrow> \<not> isWhitespace ch"
proof (induction s arbitrary: w rule: splitWhitespace.induct)
  case 1
  then show ?case by simp
next
  case (2 c cs)
  show ?case
  proof (cases "isWhitespace c")
    case True
    then have "w = [] \<or> w \<in> set (splitWhitespace (dropWhile isWhitespace cs))"
      using "2.prems"(1) by simp
    then show ?thesis
      using "2.IH"(1)[OF True] "2.prems"(2) by auto
  next
    case False
    obtain v vs where cut: "splitWhitespace cs = v # vs"
      using splitWhitespace_not_Nil[of cs] by (cases "splitWhitespace cs") auto
    then have w: "w = c # v \<or> w \<in> set vs"
      using "2.prems"(1) False by simp
    have head: "ch \<in> set v \<Longrightarrow> \<not> isWhitespace ch"
      using "2.IH"(2)[OF False, of v] cut by simp
    have tail: "w \<in> set vs \<Longrightarrow> \<not> isWhitespace ch"
      using "2.IH"(2)[OF False, of w] "2.prems"(2) cut by simp
    show ?thesis
      using w head tail "2.prems"(2) False by auto
  qed
qed

lemma splitWhitespace_one_tuple:
  "\<forall>ch\<in>set s. \<not> isWhitespace ch \<Longrightarrow> splitWhitespace s = [s]"
  by (induction s) auto

text \<open>
  A ring read with this table is never empty when every tuple gives at least one number:
  even the empty text holds one tuple.
\<close>

lemma readFlatLinearRing_not_empty:
  assumes "\<forall>c s. readTuple c s \<noteq> []"
    and "readFlatLinearRing (parseFlatCoordinates names readTuple) node c = Some ring"
  shows "ring \<noteq> []"
proof -
  obtain n where "ring = readFlatCoordinates readTuple n c"
    using assms(2)
    by (auto simp: readFlatLinearRing_def parseFlatCoordinates_last split: option.splits list.splits)
  moreover obtain w ws where "splitWhitespace (trim (getAllTextContent n)) = w # ws"
    using splitWhitespace_not_Nil[of "trim (getAllTextContent n)"]
    by (cases "splitWhitespace (trim (getAllTextContent n))") auto
  ultimately show ?thesis
    using assms(1) by (simp add: readFlatCoordinates_def)
qed

text \<open>
  Claim C7, as amended. \<open>readPoint\<close>, \<open>readLineString\<close> and \<open>readLinearRing\<close> parse the
  whitespace-delimited coordinate tuples of the text content into a flat coordinate
  sequence: they return \<open>undefined\<close> when the element has no child element that the
  coordinate table knows, and otherwise the geometry of their kind whose flat
  coordinates are the numbers of the tuples in the text content of the last such child,
  one tuple behind the other. The layout of the geometry is \<open>XYZ\<close> in every case. As
  stated the claim fails: the layout does not follow the dimension found for the
  element.
\<close>

theorem readers_parse_layout:
  "readPoint (parseFlatCoordinates names readTuple) node c =
     (case filter (\<lambda>n. namespaceURI n = Some GMLNS \<and> localName n \<in> set names)
             (elementChildren node) of
        [] \<Rightarrow> None
      | x # xs \<Rightarrow>
          Some \<lparr>getType = POINT, layout = XYZ,
                flatCoordinates =
                  concat (map (readTuple c)
                            (splitWhitespace (trim (getAllTextContent (last (x # xs))))))\<rparr>) \<and>
   readLineString (parseFlatCoordinates names readTuple) node c =
     (case filter (\<lambda>n. namespaceURI n = Some GMLNS \<and> localName n \<in> set names)
             (elementChildren node) of
        [] \<Rightarrow> None
      | x # xs \<Rightarrow>
          Some \<lparr>getType = LINE_STRING, layout = XYZ,
                flatCoordinates =
                  concat (map (readTuple c)
                            (splitWhitespace (trim (getAllTextContent (last (x # xs))))))\<rparr>) \<and>
   readLinearRing (parseFlatCoordinates names readTuple) node c =
     (case filter (\<lambda>n. namespaceURI n = Some GMLNS \<and> localName n \<in> set names)
             (elementChildren node) of
        [] \<Rightarrow> None
      | x # xs \<Rightarrow>
          Some \<lparr>getType = LINEAR_RING, layout = XYZ,
                flatCoordinates =
                  concat (map (readTuple c)
                            (splitWhitespace (trim (getAllTextContent (last (x # xs))))))\<rparr>)"
  by (simp add: readPoint_def readLineString_def readLinearRing_def
                readFlatCoordinatesFromNode_def parseFlatCoordinates_last readFlatCoordinates_def
           split: list.splits)

theorem readers_parse_layout_witness:
  "elementChildren lineStringNode2D =
     [Element ''gml:coordinates'' ''coordinates'' (Some GMLNS) []
        [Text ('' 1,2 3,4'' @ [CHR 0x0A] @ ''5,6 '')]] \<and>
   splitWhitespace (trim ('' 1,2 3,4'' @ [CHR 0x0A] @ ''5,6 '')) = [''1,2'', ''3,4'', ''5,6''] \<and>
   readLineString (parseFlatCoordinates [''coordinates''] commaTuple) lineStringNode2D context0 =
     Some \<lparr>getType = LINE_STRING, layout = XYZ, flatCoordinates = [1, 2, 0, 3, 4, 0, 5, 6, 0]\<rparr>"
proof -
  have children: "elementChildren lineStringNode2D =
     [Element ''gml:coordinates'' ''coordinates'' (Some GMLNS) []
        [Text ('' 1,2 3,4'' @ [CHR 0x0A] @ ''5,6 '')]]"
    by code_simp
  have tuples: "splitWhitespace (trim ('' 1,2 3,4'' @ [CHR 0x0A] @ ''5,6 '')) =
                  [''1,2'', ''3,4'', ''5,6'']"
    by code_simp
  have numbers: "concat (map (commaTuple context0) [''1,2'', ''3,4'', ''5,6'']) =
                   [1, 2, 0, 3, 4, 0, 5, 6, 0]"
    by code_simp
  show ?thesis
    using readers_parse_layout[of "[''coordinates'']" commaTuple lineStringNode2D context0]
      children tuples numbers
    by simp
qed

theorem readers_parse_layout_counterexample:
  "getAttribute pointNode2D ''srsDimension'' = Some ''2'' \<and>
   readPoint (parseFlatCoordinates [''coordinates''] commaTuple) pointNode2D
     (context0\<lparr>srsDimension := Some ''2''\<rparr>) =
     Some \<lparr>getType = POINT, layout = XYZ, flatCoordinates = [1, 2, 0]\<rparr> \<and>
   map_option layout
     (readPoint (parseFlatCoordinates [''coordinates''] commaTuple) pointNode2D
        (context0\<lparr>srsDimension := Some ''2''\<rparr>)) \<noteq> Some XY"
  by code_simp

section \<open>Sphere: the length of a geometry\<close>

lemma lineLength_sum:
  "lineLength radius cs =
     (\<Sum>i<length cs - 1. haversineDistance radius (cs ! i) (cs ! Suc i))"
proof (induction radius cs rule: lineLength.induct)
  case (1 radius c1 c2 coordinates)
  have "(\<Sum>i<length (c1 # c2 # coordinates) - 1.
            haversineDistance radius ((c1 # c2 # coordinates) ! i) ((c1 # c2 # coordinates) ! Suc i)) =
        haversineDistance radius c1 c2 +
        (\<Sum>i<length (c2 # coordinates) - 1.
            haversineDistance radius ((c2 # coordinates) ! i) ((c2 # coordinates) ! Suc i))"
    by (simp add: sum.lessThan_Suc_shift del: sum.lessThan_Suc)
  then show ?case
    using "1.IH" by simp
next
  case (2 radius c)
  show ?case by simp
next
  case (3 radius)
  show ?case by simp
qed

text \<open>
  Claim C8. \<open>getLength\<close> is 0 on a Point and on a MultiPoint, the sum of the haversine
  distances between consecutive vertices on a LineString, and the sum over the members on
  a MultiLineString and on a GeometryCollection; so two copies of one line, in a
  MultiLineString or in a GeometryCollection, have twice the length of the line.
\<close>

theorem getLength_sums:
  "getLength radius (Point c) = 0 \<and>
   getLength radius (MultiPoint cs) = 0 \<and>
   getLength radius (LineString cs) =
     (\<Sum>i<length cs - 1. haversineDistance radius (cs ! i) (cs ! Suc i)) \<and>
   getLength radius (MultiLineString ls) =
     sum_list (map (\<lambda>l. getLength radius (LineString l)) ls) \<and>
   getLength radius (GeometryCollection gs) = sum_list (map (getLength radius) gs) \<and>
   getLength radius (MultiLineString [l, l]) = 2 * getLength radius (LineString l) \<and>
   getLength radius (GeometryCollection [LineString l, LineString l]) =
     2 * getLength radius (LineString l)"
proof (intro conjI)
  show "getLength radius (LineString cs) =
          (\<Sum>i<length cs - 1. haversineDistance radius (cs ! i) (cs ! Suc i))"
    by (simp add: lineLength_sum)
qed simp_all

section \<open>Discovery of feature types and namespaces: the prefixes\<close>

lemma numberToString_0: "numberToString 0 = ''0''" by code_simp
lemma numberToString_1: "numberToString (Suc 0) = ''1''" by code_simp

lemma split_no_separator: "w \<in> set (split sep s) \<Longrightarrow> sep \<notin> set w"
proof (induction s arbitrary: w)
  case Nil
  then show ?case by simp
next
  case (Cons c cs)
  show ?case
  proof (cases "c = sep")
    case True
    then show ?thesis using Cons by auto
  next
    case False
    then show ?thesis using Cons by (cases "split sep cs") auto
  qed
qed

lemma split_not_Nil: "split sep s \<noteq> []"
  by (induction s) (auto split: list.splits)

lemma last_split_no_separator: "sep \<notin> set (last (split sep s))"
  using split_no_separator[of "last (split sep s)" sep s] split_not_Nil[of sep s] by simp

lemma split_no_separator_id: "sep \<notin> set s \<Longrightarrow> split sep s = [s]"
  by (induction s) auto

lemma split_at_separator:
  "\<exists>w ws. split sep (prefix @ sep # name) = w # ws \<and> ws \<noteq> []"
proof (induction prefix)
  case Nil
  show ?case
    using split_not_Nil[of sep name] by simp
next
  case (Cons c prefix)
  then obtain w ws where "split sep (prefix @ sep # name) = w # ws" "ws \<noteq> []"
    by blast
  then show ?case
    by simp
qed

lemma last_split_append:
  "last (split sep (prefix @ sep # name)) = last (split sep name)"
proof (induction prefix)
  case Nil
  show ?case
    using split_not_Nil[of sep name] by simp
next
  case (Cons c prefix)
  obtain w ws where "split sep (prefix @ sep # name) = w # ws" "ws \<noteq> []"
    using split_at_separator[of sep prefix name] by blast
  then show ?case
    using Cons by simp
qed

lemma last_split_qualifiedName:
  "CHR '':'' \<notin> set name \<Longrightarrow>
   last (split CHR '':'' name) = name \<and>
   last (split CHR '':'' (prefix @ '':'' @ name)) = name"
  using last_split_append[of "CHR '':''" prefix name]
  by (simp add: split_no_separator_id)

lemma numberToString_not_Nil: "numberToString n \<noteq> []"
  by (subst numberToString.simps) simp

lemma digit_inj: "a < 10 \<Longrightarrow> b < 10 \<Longrightarrow> digit a = digit b \<Longrightarrow> a = b"
proof -
  assume a: "a < 10" and b: "b < 10" and eq: "digit a = digit b"
  have "(of_char (digit a) :: nat) = of_char (digit b)" using eq by simp
  then show "a = b" using a b by (simp add: digit_def)
qed

lemma numberToString_inj: "numberToString m = numberToString n \<Longrightarrow> m = n"
proof (induction m arbitrary: n rule: numberToString.induct)
  case (1 m)
  show ?case
  proof (cases "m < 10")
    case m: True
    show ?thesis
    proof (cases "n < 10")
      case True
      then show ?thesis
        using m "1.prems" digit_inj[of m n]
        by (simp add: numberToString.simps[of m] numberToString.simps[of n])
    next
      case False
      then show ?thesis
        using m "1.prems" numberToString_not_Nil[of "n div 10"]
        by (simp add: numberToString.simps[of m] numberToString.simps[of n])
    qed
  next
    case m: False
    show ?thesis
    proof (cases "n < 10")
      case True
      then show ?thesis
        using m "1.prems" numberToString_not_Nil[of "m div 10"]
        by (simp add: numberToString.simps[of m] numberToString.simps[of n])
    next
      case False
      then have eq: "numberToString (m div 10) = numberToString (n div 10)"
                    "digit (m mod 10) = digit (n mod 10)"
        using m "1.prems"
        by (simp_all add: numberToString.simps[of m] numberToString.simps[of n])
      have "m div 10 = n div 10"
        using "1.IH"[OF m eq(1)] .
      moreover have "m mod 10 = n mod 10"
        using digit_inj[OF _ _ eq(2)] by simp
      ultimately show ?thesis
        by (metis div_mult_mod_eq)
    qed
  qed
qed

lemma findCandidate_absent:
  "uri \<notin> snd ` set ns \<Longrightarrow> findCandidate ns uri = ([], length ns)"
  by (induction ns) (auto split: prod.splits)

lemma findCandidate_present:
  "uri \<in> snd ` set ns \<Longrightarrow> [] \<notin> fst ` set ns \<Longrightarrow>
   fst (findCandidate ns uri) \<noteq> [] \<and> (fst (findCandidate ns uri), uri) \<in> set ns"
proof (induction ns)
  case Nil
  then show ?case by simp
next
  case (Cons a ns)
  obtain k u where a: "a = (k, u)" by (cases a)
  show ?case
  proof (cases "u = uri")
    case True
    then show ?thesis using Cons.prems a by auto
  next
    case False
    then have "uri \<in> snd ` set ns" "[] \<notin> fst ` set ns"
      using Cons.prems a by auto
    then show ?thesis
      using Cons.IH False a by (auto split: prod.splits)
  qed
qed

lemma update_fresh: "k \<notin> fst ` set al \<Longrightarrow> AList.update k v al = al @ [(k, v)]"
  by (induction al) auto

lemma first_seen_fold:
  "fold (\<lambda>u us. if u \<in> set us then us else us @ [u]) uris [] = rev (remdups (rev uris))"
proof (induction uris rule: rev_induct)
  case Nil
  show ?case by simp
next
  case (snoc u uris)
  then show ?case by auto
qed

lemma discoverChild_skip:
  "nodeType child \<noteq> 1 \<Longrightarrow> discoverChild child acc = acc"
  by (cases acc) simp

lemma discoverChild_element:
  assumes elem: "nodeType child = 1"
    and keys: "map fst ns = map (\<lambda>i. ''p'' @ numberToString i) [0..<length ns]"
    and colon: "\<forall>t\<in>set ts. CHR '':'' \<in> set t"
  shows "\<exists>k. discoverChild child (ts, ns) =
               (ts @ [k @ '':'' @ last (split CHR '':'' (nodeName child))],
                if namespaceURI child \<in> snd ` set ns then ns
                else ns @ [(''p'' @ numberToString (length ns), namespaceURI child)]) \<and>
             (k, namespaceURI child) \<in>
               set (if namespaceURI child \<in> snd ` set ns then ns
                    else ns @ [(''p'' @ numberToString (length ns), namespaceURI child)])"
proof -
  let ?ft = "last (split CHR '':'' (nodeName child))"
  let ?uri = "namespaceURI child"
  have fresh: "?ft \<notin> set ts"
    using colon last_split_no_separator[of "CHR '':''" "nodeName child"] by auto
  have keyset: "fst ` set ns = (\<lambda>i. ''p'' @ numberToString i) ` {0..<length ns}"
    using keys by (metis (no_types, lifting) image_set set_upt list.set_map)
  show ?thesis
  proof (cases "?uri \<in> snd ` set ns")
    case True
    have "[] \<notin> fst ` set ns"
      using keyset by auto
    then have "fst (findCandidate ns ?uri) \<noteq> [] \<and> (fst (findCandidate ns ?uri), ?uri) \<in> set ns"
      using findCandidate_present[OF True] by simp
    then show ?thesis
      using elem fresh True by (simp add: Let_def)
  next
    case False
    have found: "findCandidate ns ?uri = ([], length ns)"
      using findCandidate_absent[OF False] .
    have "''p'' @ numberToString (length ns) \<notin> fst ` set ns"
    proof
      assume "''p'' @ numberToString (length ns) \<in> fst ` set ns"
      then obtain i where "i < length ns" "numberToString (length ns) = numberToString i"
        using keyset by auto
      then show False
        using numberToString_inj[of "length ns" i] by simp
    qed
    then have "AList.update (''p'' @ numberToString (length ns)) ?uri ns =
               ns @ [(''p'' @ numberToString (length ns), ?uri)]"
      by (rule update_fresh)
    then show ?thesis
      using elem fresh False found by (simp add: Let_def)
  qed
qed

lemma discoverFeatureTypes_invariant:
  assumes "map fst ns = map (\<lambda>i. ''p'' @ numberToString i) [0..<length ns]"
    and "distinct (map snd ns)"
    and "\<forall>t\<in>set ts. CHR '':'' \<in> set t"
    and "discoverFeatureTypes children (ts, ns) = (ts', ns')"
  shows "map fst ns' = map (\<lambda>i. ''p'' @ numberToString i) [0..<length ns'] \<and>
         map snd ns' =
           fold (\<lambda>u us. if u \<in> set us then us else us @ [u])
             (map namespaceURI (filter (\<lambda>n. nodeType n = 1) children)) (map snd ns) \<and>
         set ns \<subseteq> set ns' \<and>
         (\<exists>new. ts' = ts @ new \<and>
            list_all2 (\<lambda>t n. \<exists>k. t = k @ '':'' @ last (split CHR '':'' (nodeName n)) \<and>
                                  (k, namespaceURI n) \<in> set ns')
              new (filter (\<lambda>n. nodeType n = 1) children))"
  using assms
proof (induction children arbitrary: ts ns)
  case Nil
  then show ?case by simp
next
  case (Cons child rest)
  show ?case
  proof (cases "nodeType child = 1")
    case False
    then have "discoverFeatureTypes rest (ts, ns) = (ts', ns')"
      using Cons.prems(4) by (simp add: discoverChild_skip)
    then show ?thesis
      using Cons.IH[OF Cons.prems(1,2,3)] False by simp
  next
    case True
    let ?uri = "namespaceURI child"
    let ?ns1 = "if ?uri \<in> snd ` set ns then ns
                else ns @ [(''p'' @ numberToString (length ns), ?uri)]"
    obtain k where step: "discoverChild child (ts, ns) =
                     (ts @ [k @ '':'' @ last (split CHR '':'' (nodeName child))], ?ns1)"
      and bound: "(k, ?uri) \<in> set ?ns1"
      using discoverChild_element[OF True Cons.prems(1) Cons.prems(3)] by blast
    let ?ts1 = "ts @ [k @ '':'' @ last (split CHR '':'' (nodeName child))]"
    have keys1: "map fst ?ns1 = map (\<lambda>i. ''p'' @ numberToString i) [0..<length ?ns1]"
      using Cons.prems(1) by simp
    have dist1: "distinct (map snd ?ns1)"
      using Cons.prems(2) by auto
    have colon1: "\<forall>t\<in>set ?ts1. CHR '':'' \<in> set t"
      using Cons.prems(3) by auto
    have rest: "discoverFeatureTypes rest (?ts1, ?ns1) = (ts', ns')"
      using Cons.prems(4) step by simp
    note IH = Cons.IH[OF keys1 dist1 colon1 rest]
    have values1: "map snd ?ns1 = (if ?uri \<in> set (map snd ns) then map snd ns else map snd ns @ [?uri])"
      by simp
    from IH obtain new where new: "ts' = ?ts1 @ new"
      and rel: "list_all2 (\<lambda>t n. \<exists>k. t = k @ '':'' @ last (split CHR '':'' (nodeName n)) \<and>
                                  (k, namespaceURI n) \<in> set ns')
              new (filter (\<lambda>n. nodeType n = 1) rest)"
      by blast
    have sub: "set ?ns1 \<subseteq> set ns'" using IH by blast
    have "ts' = ts @ (k @ '':'' @ last (split CHR '':'' (nodeName child))) # new"
      using new by simp
    moreover have "(k, ?uri) \<in> set ns'"
      using bound sub by blast
    ultimately have types: "\<exists>new. ts' = ts @ new \<and>
            list_all2 (\<lambda>t n. \<exists>k. t = k @ '':'' @ last (split CHR '':'' (nodeName n)) \<and>
                                  (k, namespaceURI n) \<in> set ns')
              new (filter (\<lambda>n. nodeType n = 1) (child # rest))"
      using rel True by auto
    have "set ns \<subseteq> set ns'"
      using sub by (auto split: if_splits)
    moreover have "map snd ns' =
           fold (\<lambda>u us. if u \<in> set us then us else us @ [u])
             (map namespaceURI (filter (\<lambda>n. nodeType n = 1) (child # rest))) (map snd ns)"
      using IH True values1 by simp
    ultimately show ?thesis
      using IH types by blast
  qed
qed

text \<open>
  What lines 125 to 159 find when the context holds no feature type: \<open>featureNS\<close> binds
  the prefixes \<open>p0\<close>, \<open>p1\<close>, ... to the distinct namespace URIs of the element children
  in the order of their first encounter, and \<open>featureType\<close> holds one entry per element
  child.
\<close>

lemma resolveFeatureTypes_found:
  assumes falsy: "falsyFeatureType (featureType context)"
    and resolved: "resolveFeatureTypes name node context = (ft, fns, context')"
  shows "\<exists>tys ns. ft = FT_array tys \<and> fns = NS_object ns \<and>
           map snd ns = rev (remdups (rev (map namespaceURI (elementChildren node)))) \<and>
           map fst ns = map (\<lambda>i. ''p'' @ numberToString i) [0..<length ns] \<and>
           length tys = length (elementChildren node) \<and>
           (\<forall>i<length tys. \<exists>j<length ns.
              snd (ns ! j) = namespaceURI (elementChildren node ! i) \<and>
              tys ! i = (''p'' @ numberToString j) @ '':'' @
                            last (split CHR '':'' (nodeName (elementChildren node ! i)))) \<and>
           (\<forall>a b. elementChildren node = [a, b] \<and> namespaceURI a \<noteq> namespaceURI b \<longrightarrow>
              ns = [(''p0'', namespaceURI a), (''p1'', namespaceURI b)])"
proof -
  obtain tys ns where found: "discoverFeatureTypes (childNodes node) ([], []) = (tys, ns)"
    by (cases "discoverFeatureTypes (childNodes node) ([], [])")
  have ft: "ft = FT_array tys" and fns: "fns = NS_object ns"
    using falsy resolved found by (simp_all add: resolveFeatureTypes_def Let_def)
  note inv = discoverFeatureTypes_invariant[of "[]" "[]" "childNodes node" tys ns, OF _ _ _ found]
  have keys: "map fst ns = map (\<lambda>i. ''p'' @ numberToString i) [0..<length ns]"
    using inv by simp
  have uris: "map snd ns = rev (remdups (rev (map namespaceURI (elementChildren node))))"
    using inv by (simp add: first_seen_fold elementChildren_def)
  have rel: "list_all2 (\<lambda>t n. \<exists>k. t = k @ '':'' @ last (split CHR '':'' (nodeName n)) \<and>
                                  (k, namespaceURI n) \<in> set ns)
              tys (elementChildren node)"
    using inv by (simp add: elementChildren_def)
  have len: "length tys = length (elementChildren node)"
    using rel by (rule list_all2_lengthD)
  have each: "\<forall>i<length tys. \<exists>j<length ns.
              snd (ns ! j) = namespaceURI (elementChildren node ! i) \<and>
              tys ! i = (''p'' @ numberToString j) @ '':'' @
                            last (split CHR '':'' (nodeName (elementChildren node ! i)))"
  proof (intro allI impI)
    fix i
    assume i: "i < length tys"
    let ?n = "elementChildren node ! i"
    obtain k where t: "tys ! i = k @ '':'' @ last (split CHR '':'' (nodeName ?n))"
      and k: "(k, namespaceURI ?n) \<in> set ns"
      using list_all2_nthD[OF rel i] by blast
    obtain j where j: "j < length ns" "ns ! j = (k, namespaceURI ?n)"
      using k by (auto simp: in_set_conv_nth)
    have "map fst ns ! j = ''p'' @ numberToString j"
      using keys j(1) by simp
    then have "k = ''p'' @ numberToString j"
      using j by simp
    then show "\<exists>j<length ns.
              snd (ns ! j) = namespaceURI ?n \<and>
              tys ! i = (''p'' @ numberToString j) @ '':'' @
                            last (split CHR '':'' (nodeName ?n))"
      using t j by auto
  qed
  have two: "\<forall>a b. elementChildren node = [a, b] \<and> namespaceURI a \<noteq> namespaceURI b \<longrightarrow>
              ns = [(''p0'', namespaceURI a), (''p1'', namespaceURI b)]"
  proof (intro allI impI)
    fix a b
    assume ab: "elementChildren node = [a, b] \<and> namespaceURI a \<noteq> namespaceURI b"
    have v: "map snd ns = [namespaceURI a, namespaceURI b]"
      using uris ab by auto
    then have l: "length ns = 2"
      by (metis length_map length_Cons list.size(3) numeral_2_eq_2)
    have "[0..<2] = [0, 1]"
      by (simp add: upt_rec)
    then have f: "map fst ns = [''p0'', ''p1'']"
      using keys l by (simp add: numberToString_0 numberToString_1)
    have "ns = zip (map fst ns) (map snd ns)"
      by (simp add: zip_map_fst_snd)
    then show "ns = [(''p0'', namespaceURI a), (''p1'', namespaceURI b)]"
      using f v by simp
  qed
  show ?thesis
    using ft fns uris keys len each two by blast
qed

section \<open>Features: properties and the designated geometry\<close>

lemma update_keys_set: "fst ` set (AList.update k v al) = insert k (fst ` set al)"
  by (induction al) auto

lemma setProperty_keys:
  "fst ` set (setProperty k v al) =
     (if k = ''__proto__'' then fst ` set al else insert k (fst ` set al))"
  by (simp add: setProperty_def update_keys_set)

lemma map_of_setProperty:
  "map_of (setProperty k v al) l =
     (if l = k \<and> k \<noteq> ''__proto__'' then Some v else map_of al l)"
  by (simp add: setProperty_def AList.update_conv')

lemma readFeatureElement_loop_result:
  "readFeatureElement_loop this ns (vals, g, c) = Inr (vals', g', c') \<Longrightarrow>
     g' = (case filter (\<lambda>n. \<not> isAttributeElement n \<and> localName n \<noteq> ''boundedBy'') ns of
             [] \<Rightarrow> g
           | x # xs \<Rightarrow> Some (localName (last (x # xs)))) \<and>
     fst ` set vals' = fst ` set vals \<union> (localName ` set ns - {''__proto__''})"
proof (induction ns arbitrary: vals g c)
  case Nil
  then show ?case by simp
next
  case (Cons n ns)
  show ?case
  proof (cases "isAttributeElement n")
    case True
    let ?v = "if ONLY_WHITESPACE_RE (getAllTextContent n) then Undefined
              else Str (getAllTextContent n)"
    have "readFeatureElement_loop this ns (setProperty (localName n) ?v vals, g, c) =
            Inr (vals', g', c')"
      using Cons.prems True by (simp add: Let_def)
    from Cons.IH[OF this] show ?thesis
      using True by (auto simp: setProperty_keys split: if_splits)
  next
    case False
    let ?g = "if localName n \<noteq> ''boundedBy'' then Some (localName n) else g"
    obtain geometry c1 where read: "readGeometryElement this n c = Inr (geometry, c1)"
      and rest: "readFeatureElement_loop this ns
                   (setProperty (localName n) geometry vals, ?g, c1) = Inr (vals', g', c')"
      using Cons.prems False by (auto simp: Let_def split: sum.splits)
    from Cons.IH[OF rest] show ?thesis
      using False by (auto simp: setProperty_keys split: list.splits if_splits)
  qed
qed

lemma readGeometryElement_returns:
  "firstElementChild n \<noteq> None \<Longrightarrow> \<forall>n c. \<exists>r. GEOMETRY_PARSERS this n c = Inr r \<Longrightarrow>
   \<exists>r. readGeometryElement this n c = Inr r"
proof -
  assume child: "firstElementChild n \<noteq> None" and total: "\<forall>n c. \<exists>r. GEOMETRY_PARSERS this n c = Inr r"
  obtain ch where ch: "firstElementChild n = Some ch"
    using child by auto
  let ?c = "c\<lparr>srsName := getAttribute ch ''srsName'', srsDimension := getAttribute ch ''srsDimension''\<rparr>"
  obtain r where "GEOMETRY_PARSERS this n ?c = Inr r"
    using total by blast
  then show ?thesis
    using ch by (cases r) (simp_all add: readGeometryElement_def Let_def)
qed

lemma readFeatureElement_loop_returns:
  "list_all (\<lambda>n. isAttributeElement n \<or> firstElementChild n \<noteq> None) ns \<Longrightarrow>
   \<forall>n c. \<exists>r. GEOMETRY_PARSERS this n c = Inr r \<Longrightarrow>
   \<exists>r. readFeatureElement_loop this ns st = Inr r"
proof (induction ns arbitrary: st)
  case Nil
  show ?case by (simp del: split_paired_Ex)
next
  case (Cons n ns)
  obtain vals g c where st: "st = (vals, g, c)"
    by (rule prod_cases3)
  show ?case
  proof (cases "isAttributeElement n")
    case True
    then show ?thesis
      using Cons st by (simp add: Let_def)
  next
    case False
    then have "firstElementChild n \<noteq> None"
      using Cons.prems(1) by simp
    then obtain r where "readGeometryElement this n c = Inr r"
      using readGeometryElement_returns[OF _ Cons.prems(2)] by blast
    then show ?thesis
      using Cons False st by (cases r) (simp add: Let_def)
  qed
qed

text \<open>
  What the loop stores. The loop over a list of children is the loop over its front
  followed by the loop over its rest; a child changes no property but the one of its
  own local name; and the geometry reader overwrites the two fields of the context that
  the loop changes before it reads them, so each child is decoded as if it were the
  first.
\<close>

lemma readFeatureElement_loop_append:
  "readFeatureElement_loop this (xs @ ys) st =
     (case readFeatureElement_loop this xs st of
        Inl e \<Rightarrow> Inl e
      | Inr st' \<Rightarrow> readFeatureElement_loop this ys st')"
proof (induction xs arbitrary: st)
  case Nil
  show ?case by simp
next
  case (Cons n ns)
  obtain vals g c where st: "st = (vals, g, c)"
    by (rule prod_cases3)
  show ?case
  proof (cases "isAttributeElement n")
    case True
    then show ?thesis
      using Cons.IH st by (simp add: Let_def)
  next
    case False
    show ?thesis
    proof (cases "readGeometryElement this n c")
      case (Inl e)
      then show ?thesis
        using False st by (simp add: Let_def)
    next
      case (Inr r)
      obtain geometry c1 where r: "r = (geometry, c1)"
        by (cases r)
      show ?thesis
        using Cons.IH False st Inr r by (simp add: Let_def)
    qed
  qed
qed

lemma readFeatureElement_loop_frame:
  "readFeatureElement_loop this ns (vals, g, c) = Inr (vals', g', c') \<Longrightarrow>
   k \<notin> localName ` set ns \<Longrightarrow> map_of vals' k = map_of vals k"
proof (induction ns arbitrary: vals g c)
  case Nil
  then show ?case by simp
next
  case (Cons n ns)
  have k: "k \<noteq> localName n" "k \<notin> localName ` set ns"
    using Cons.prems(2) by auto
  show ?case
  proof (cases "isAttributeElement n")
    case True
    let ?v = "if ONLY_WHITESPACE_RE (getAllTextContent n) then Undefined
              else Str (getAllTextContent n)"
    have "readFeatureElement_loop this ns (setProperty (localName n) ?v vals, g, c) =
            Inr (vals', g', c')"
      using Cons.prems(1) True by (simp add: Let_def)
    from Cons.IH[OF this k(2)] show ?thesis
      using k(1) by (simp add: map_of_setProperty)
  next
    case False
    let ?g = "if localName n \<noteq> ''boundedBy'' then Some (localName n) else g"
    obtain geometry c1 where
      rest: "readFeatureElement_loop this ns
               (setProperty (localName n) geometry vals, ?g, c1) = Inr (vals', g', c')"
      using Cons.prems(1) False by (auto simp: Let_def split: sum.splits)
    from Cons.IH[OF rest k(2)] show ?thesis
      using k(1) by (simp add: map_of_setProperty)
  qed
qed

lemma readGeometryElement_context:
  "readGeometryElement this n c = Inr (g, c') \<Longrightarrow>
   featureType c' = featureType c \<and> featureNS c' = featureNS c"
  by (auto simp: readGeometryElement_def Let_def split: option.splits sum.splits)

lemma readGeometryElement_same:
  assumes "featureType c = featureType c0" and "featureNS c = featureNS c0"
  shows "readGeometryElement this n c = readGeometryElement this n c0"
proof -
  have same: "c\<lparr>srsName := a, srsDimension := b\<rparr> = c0\<lparr>srsName := a, srsDimension := b\<rparr>" for a b
    using assms by (cases c, cases c0) simp
  show ?thesis
    by (cases "firstElementChild n") (simp_all add: readGeometryElement_def same)
qed

lemma readFeatureElement_loop_context:
  "readFeatureElement_loop this ns (vals, g, c) = Inr (vals', g', c') \<Longrightarrow>
   featureType c' = featureType c \<and> featureNS c' = featureNS c"
proof (induction ns arbitrary: vals g c)
  case Nil
  then show ?case by simp
next
  case (Cons n ns)
  show ?case
  proof (cases "isAttributeElement n")
    case True
    then show ?thesis
      using Cons by (simp add: Let_def)
  next
    case False
    obtain geometry c1 where read: "readGeometryElement this n c = Inr (geometry, c1)"
      and rest: "readFeatureElement_loop this ns
                   (setProperty (localName n) geometry vals,
                    if localName n \<noteq> ''boundedBy'' then Some (localName n) else g, c1) =
                 Inr (vals', g', c')"
      using Cons.prems False by (auto simp: Let_def split: sum.splits)
    show ?thesis
      using Cons.IH[OF rest] readGeometryElement_context[OF read] by simp
  qed
qed

lemma readFeatureElement_loop_value:
  assumes loop: "readFeatureElement_loop this (before @ n # after) (vals, g, c) =
                   Inr (vals', g', c')"
    and last: "localName n \<notin> localName ` set after"
    and name: "localName n \<noteq> ''__proto__''"
  shows "if isAttributeElement n
         then map_of vals' (localName n) =
                Some (if ONLY_WHITESPACE_RE (getAllTextContent n) then Undefined
                      else Str (getAllTextContent n))
         else (\<exists>geometry c1. readGeometryElement this n c = Inr (geometry, c1) \<and>
                 map_of vals' (localName n) = Some geometry)"
proof -
  obtain vals1 g1 c1 where front: "readFeatureElement_loop this before (vals, g, c) =
                                     Inr (vals1, g1, c1)"
    and rest: "readFeatureElement_loop this (n # after) (vals1, g1, c1) = Inr (vals', g', c')"
    using loop readFeatureElement_loop_append[of this before "n # after" "(vals, g, c)"]
    by (cases "readFeatureElement_loop this before (vals, g, c)") auto
  have c1: "featureType c1 = featureType c" "featureNS c1 = featureNS c"
    using readFeatureElement_loop_context[OF front] by simp_all
  show ?thesis
  proof (cases "isAttributeElement n")
    case True
    let ?v = "if ONLY_WHITESPACE_RE (getAllTextContent n) then Undefined
              else Str (getAllTextContent n)"
    have "readFeatureElement_loop this after (setProperty (localName n) ?v vals1, g1, c1) =
            Inr (vals', g', c')"
      using rest True by (simp add: Let_def)
    from readFeatureElement_loop_frame[OF this last] show ?thesis
      using True name by (simp add: map_of_setProperty)
  next
    case False
    let ?g = "if localName n \<noteq> ''boundedBy'' then Some (localName n) else g1"
    obtain geometry c2 where read: "readGeometryElement this n c1 = Inr (geometry, c2)"
      and tail: "readFeatureElement_loop this after
                   (setProperty (localName n) geometry vals1, ?g, c2) = Inr (vals', g', c')"
      using rest False by (auto simp: Let_def split: sum.splits)
    have "readGeometryElement this n c = Inr (geometry, c2)"
      using read readGeometryElement_same[OF c1, of this n] by simp
    moreover have "map_of vals' (localName n) = Some geometry"
      using readFeatureElement_loop_frame[OF tail last] name by (simp add: map_of_setProperty)
    ultimately show ?thesis
      using False by auto
  qed
qed

text \<open>
  Claim C4, as amended. In the feature that \<open>readFeatureElement\<close> returns, the name given
  to \<open>setGeometryName\<close> is the local name of the last child element that is read as a
  geometry and is not named \<open>boundedBy\<close>; \<open>boundedBy\<close> is never that name. Every child
  element, \<open>boundedBy\<close> included, is stored as a property under its local name (the name
  \<open>__proto__\<close> apart, which names no property of a plain object), and the value of the
  property is the one of the last child of that name: its text when it is read as an
  attribute value (\<open>undefined\<close> when the text is white space only), and otherwise the
  geometry that \<open>readGeometryElement\<close> decodes from it. A feature element whose children
  read as geometries are all named \<open>boundedBy\<close> has no designated geometry. A feature is
  returned whenever every child read as a geometry has a child element and the geometry
  parsers do not throw. As stated the claim fails: the code keeps the last such child,
  not the first.
\<close>

theorem readFeatureElement_geometryName:
  "(readFeatureElement this node context = Inr (v, context') \<longrightarrow>
      (\<exists>vals i.
         v = Feature vals
               (case filter (\<lambda>n. \<not> isAttributeElement n \<and> localName n \<noteq> ''boundedBy'')
                       (elementChildren node) of
                  [] \<Rightarrow> None
                | x # xs \<Rightarrow> if localName (last (x # xs)) \<noteq> [] then Some (localName (last (x # xs)))
                            else None) i \<and>
         fst ` set vals = localName ` set (elementChildren node) - {''__proto__''} \<and>
         (\<forall>before n after.
            elementChildren node = before @ n # after \<and>
            localName n \<notin> localName ` set after \<and> localName n \<noteq> ''__proto__'' \<longrightarrow>
              (if isAttributeElement n
               then map_of vals (localName n) =
                      Some (if ONLY_WHITESPACE_RE (getAllTextContent n) then Undefined
                            else Str (getAllTextContent n))
               else (\<exists>geometry c1. readGeometryElement this n context = Inr (geometry, c1) \<and>
                       map_of vals (localName n) = Some geometry)))) \<and>
      (\<forall>vals g i. v = Feature vals g i \<longrightarrow> g \<noteq> Some ''boundedBy'') \<and>
      (list_all (\<lambda>n. isAttributeElement n \<or> localName n = ''boundedBy'') (elementChildren node) \<longrightarrow>
         (\<exists>vals i. v = Feature vals None i))) \<and>
   (list_all (\<lambda>n. isAttributeElement n \<or> firstElementChild n \<noteq> None) (elementChildren node) \<and>
    (\<forall>n c. \<exists>r. GEOMETRY_PARSERS this n c = Inr r) \<longrightarrow>
      (\<exists>vals g i c. readFeatureElement this node context = Inr (Feature vals g i, c)))"
proof (intro conjI impI)
  assume result: "readFeatureElement this node context = Inr (v, context')"
  let ?complex = "filter (\<lambda>n. \<not> isAttributeElement n \<and> localName n \<noteq> ''boundedBy'')
                       (elementChildren node)"
  let ?name = "case ?complex of
                  [] \<Rightarrow> None
                | x # xs \<Rightarrow> if localName (last (x # xs)) \<noteq> [] then Some (localName (last (x # xs)))
                            else None"
  obtain vals g c where loop:
    "readFeatureElement_loop this (elementChildren node) ([], None, context) = Inr (vals, g, c)"
    using result by (auto simp: readFeatureElement_def Let_def split: sum.splits)
  note inv = readFeatureElement_loop_result[OF loop]
  have g: "(case g of None \<Rightarrow> None | Some n \<Rightarrow> if n \<noteq> [] then Some n else None) = ?name"
    using inv by (auto split: list.splits)
  obtain i where v: "v = Feature vals ?name i"
    using result loop g by (auto simp: readFeatureElement_def Let_def)
  have keys: "fst ` set vals = localName ` set (elementChildren node) - {''__proto__''}"
    using inv by simp
  have stored: "\<forall>before n after.
            elementChildren node = before @ n # after \<and>
            localName n \<notin> localName ` set after \<and> localName n \<noteq> ''__proto__'' \<longrightarrow>
              (if isAttributeElement n
               then map_of vals (localName n) =
                      Some (if ONLY_WHITESPACE_RE (getAllTextContent n) then Undefined
                            else Str (getAllTextContent n))
               else (\<exists>geometry c1. readGeometryElement this n context = Inr (geometry, c1) \<and>
                       map_of vals (localName n) = Some geometry))"
  proof (intro allI impI)
    fix before n after
    assume a: "elementChildren node = before @ n # after \<and>
            localName n \<notin> localName ` set after \<and> localName n \<noteq> ''__proto__''"
    have "readFeatureElement_loop this (before @ n # after) ([], None, context) = Inr (vals, g, c)"
      using loop a by simp
    from readFeatureElement_loop_value[OF this]
    show "if isAttributeElement n
               then map_of vals (localName n) =
                      Some (if ONLY_WHITESPACE_RE (getAllTextContent n) then Undefined
                            else Str (getAllTextContent n))
               else (\<exists>geometry c1. readGeometryElement this n context = Inr (geometry, c1) \<and>
                       map_of vals (localName n) = Some geometry)"
      using a by blast
  qed
  show shape: "\<exists>vals i. v = Feature vals ?name i \<and>
                  fst ` set vals = localName ` set (elementChildren node) - {''__proto__''} \<and>
         (\<forall>before n after.
            elementChildren node = before @ n # after \<and>
            localName n \<notin> localName ` set after \<and> localName n \<noteq> ''__proto__'' \<longrightarrow>
              (if isAttributeElement n
               then map_of vals (localName n) =
                      Some (if ONLY_WHITESPACE_RE (getAllTextContent n) then Undefined
                            else Str (getAllTextContent n))
               else (\<exists>geometry c1. readGeometryElement this n context = Inr (geometry, c1) \<and>
                       map_of vals (localName n) = Some geometry)))"
    using v keys stored by blast
  have last_in: "?complex \<noteq> [] \<Longrightarrow> localName (last ?complex) \<noteq> ''boundedBy''"
    using last_in_set[of ?complex] by auto
  have "?name \<noteq> Some ''boundedBy''"
    using last_in by (auto split: list.splits)
  then show "\<forall>vals g i. v = Feature vals g i \<longrightarrow> g \<noteq> Some ''boundedBy''"
    using v by auto
  show "\<exists>vals i. v = Feature vals None i"
    if "list_all (\<lambda>n. isAttributeElement n \<or> localName n = ''boundedBy'') (elementChildren node)"
  proof -
    have "?complex = []"
      using that by (auto simp: filter_empty_conv list_all_iff)
    then show ?thesis
      using v by simp
  qed
next
  assume total: "list_all (\<lambda>n. isAttributeElement n \<or> firstElementChild n \<noteq> None) (elementChildren node) \<and>
    (\<forall>n c. \<exists>r. GEOMETRY_PARSERS this n c = Inr r)"
  obtain r where "readFeatureElement_loop this (elementChildren node) ([], None, context) = Inr r"
    using readFeatureElement_loop_returns[of "elementChildren node" this "([], None, context)"] total
    by blast
  then show "\<exists>vals g i c. readFeatureElement this node context = Inr (Feature vals g i, c)"
    by (cases r) (auto simp: readFeatureElement_def Let_def)
qed

theorem readFeatureElement_geometryName_witness:
  "readFeatureElement gmlNames boundedByOnly context0 =
     Inr (Feature [(''name'', Str ''Main Street''), (''boundedBy'', Geom ''Box'')] None
            (Some ''road.1''),
          context0) \<and>
   elementChildren boundedByOnly =
     [Element ''topp:name'' ''name'' (Some ''http://topp'') [] [Text ''Main Street''],
      boundedByBox] \<and>
   readGeometryElement gmlNames boundedByBox context0 = Inr (Geom ''Box'', context0) \<and>
   list_all (\<lambda>n. isAttributeElement n \<or> localName n = ''boundedBy'') (elementChildren boundedByOnly) \<and>
   list_all (\<lambda>n. isAttributeElement n \<or> firstElementChild n \<noteq> None) (elementChildren boundedByOnly) \<and>
   (\<forall>n c. \<exists>r. GEOMETRY_PARSERS gmlNames n c = Inr r)"
proof -
  let ?feature = "Feature [(''name'', Str ''Main Street''), (''boundedBy'', Geom ''Box'')] None
                    (Some ''road.1'') :: string val"
  have result: "readFeatureElement gmlNames boundedByOnly context0 = Inr (?feature, context0)"
    by code_simp
  have elements: "elementChildren boundedByOnly =
     [Element ''topp:name'' ''name'' (Some ''http://topp'') [] [Text ''Main Street''],
      boundedByBox]"
    by code_simp
  have decoded: "readGeometryElement gmlNames boundedByBox context0 = Inr (Geom ''Box'', context0)"
    by code_simp
  have only: "list_all (\<lambda>n. isAttributeElement n \<or> localName n = ''boundedBy'') (elementChildren boundedByOnly)"
    by code_simp
  have children: "list_all (\<lambda>n. isAttributeElement n \<or> firstElementChild n \<noteq> None) (elementChildren boundedByOnly)"
    by code_simp
  have total: "\<forall>n c. \<exists>r. GEOMETRY_PARSERS gmlNames n c = Inr r"
    by (simp add: gmlNames_def)
  note claim = readFeatureElement_geometryName[of gmlNames boundedByOnly context0 ?feature context0]
  have "\<exists>vals i. ?feature = Feature vals None i"
    using claim result only by blast
  moreover have "\<exists>vals g i c. readFeatureElement gmlNames boundedByOnly context0 =
                   Inr (Feature vals g i, c)"
    using claim children total by blast
  ultimately show ?thesis
    using result elements decoded only children total by simp
qed

theorem readFeatureElement_geometryName_counterexample:
  "readFeatureElement gmlNames twoGeometries context0 =
     Inr (Feature [(''boundedBy'', Geom ''Box''), (''geomA'', Geom ''Point''),
                   (''geomB'', Geom ''Point'')]
            (Some ''geomB'') (Some ''road.2''),
          context0) \<and>
   elementChildren twoGeometries = [boundedByBox, geomA, geomB] \<and>
   \<not> isAttributeElement boundedByBox \<and> localName boundedByBox = ''boundedBy'' \<and>
   \<not> isAttributeElement geomA \<and> localName geomA = ''geomA'' \<and>
   \<not> isAttributeElement geomB \<and> localName geomB = ''geomB''"
  by code_simp


section \<open>A property element without a child element\<close>

text \<open>
  Claim C1 fails on the code. \<open>readFeatureElement\<close> reads every child element that is not
  empty and does not hold exactly one text or CDATA node as a geometry, and
  \<open>readGeometryElement\<close> calls \<open>getAttribute\<close> on its \<open>firstElementChild\<close> before any
  test: on a property element that holds only a comment it is \<open>null\<close>, and the
  \<open>TypeError\<close> aborts the whole document.
\<close>

theorem readFeaturesFromNode_throws:
  "firstElementChild (Element ''topp:note'' ''note'' (Some ''http://topp'') [] [Comment ''none'']) = None \<and>
   readFeatureElement gml0 roadWithComment context0 = Inl TypeError \<and>
   readFeaturesFromNode gml0 membersWithComment = Inl TypeError"
  by code_simp

section \<open>Feature members: what the parsers keep\<close>

lemma parseChildren_invariant:
  "(\<forall>k ps l p n st st'. map_of P k = Some ps \<longrightarrow> map_of ps l = Some p \<longrightarrow>
       n \<in> set cs \<longrightarrow> J st \<longrightarrow> callParser p n st = Inr st' \<longrightarrow> J st') \<Longrightarrow>
   J st \<Longrightarrow> parseChildren P cs st = Inr st' \<Longrightarrow> J st'"
proof (induction cs arbitrary: st)
  case Nil
  then show ?case by simp
next
  case (Cons n ns)
  note step = Cons.prems(1)[rule_format]
  have step': "\<forall>k ps l p m st st'. map_of P k = Some ps \<longrightarrow> map_of ps l = Some p \<longrightarrow>
       m \<in> set ns \<longrightarrow> J st \<longrightarrow> callParser p m st = Inr st' \<longrightarrow> J st'"
  proof (intro allI impI)
    fix k ps l p m st st'
    assume a: "map_of P k = Some ps" "map_of ps l = Some p" "m \<in> set ns" "J st"
      "callParser p m st = Inr st'"
    have "m \<in> set (n # ns)"
      using a(3) by simp
    then show "J st'"
      using step[OF a(1) a(2) _ a(4) a(5)] by blast
  qed
  show ?case
  proof (cases "map_of P (propertyKey (namespaceURI n))")
    case None
    then have "parseChildren P ns st = Inr st'"
      using Cons.prems(3) by simp
    then show ?thesis
      using Cons.IH[OF step' Cons.prems(2)] by blast
  next
    case (Some ps)
    show ?thesis
    proof (cases "map_of ps (localName n)")
      case None
      then have "parseChildren P ns st = Inr st'"
        using Cons.prems(3) Some by simp
      then show ?thesis
        using Cons.IH[OF step' Cons.prems(2)] by blast
    next
      case p: (Some p)
      obtain st1 where call: "callParser p n st = Inr st1"
        and rest: "parseChildren P ns st1 = Inr st'"
        using Cons.prems(3) Some p by (cases "callParser p n st") simp_all
      have "n \<in> set (n # ns)"
        by simp
      then have "J st1"
        using step[OF Some p _ Cons.prems(2) call] by blast
      then show ?thesis
        using Cons.IH[OF step' _ rest] by blast
    qed
  qed
qed

lemma featureParsers_parsers:
  "map_of (featureParsers parser p fts acc) l = Some q \<Longrightarrow> q = parser \<or> map_of acc l = Some q"
proof (induction fts arbitrary: acc)
  case Nil
  then show ?case by simp
next
  case (Cons t fts)
  then show ?case
    by (fastforce simp: Let_def AList.update_conv' split: if_splits)
qed

lemma featureParsersNS_parsers:
  "map_of (featureParsersNS parser fts nss acc) k = Some ps \<Longrightarrow> map_of ps l = Some q \<Longrightarrow>
   q = parser \<or> (\<exists>ps0. map_of acc k = Some ps0 \<and> map_of ps0 l = Some q)"
proof (induction nss arbitrary: acc)
  case Nil
  then show ?case by simp
next
  case (Cons a nss)
  obtain p uri where a: "a = (p, uri)"
    by (cases a)
  let ?acc = "AList.update (propertyKey uri) (featureParsers parser p fts []) acc"
  have "map_of (featureParsersNS parser fts nss ?acc) k = Some ps"
    using Cons.prems(1) a by simp
  from Cons.IH[OF this Cons.prems(2)]
  consider "q = parser" | ps0 where "map_of ?acc k = Some ps0" "map_of ps0 l = Some q"
    by blast
  then show ?case
  proof cases
    case 1
    then show ?thesis by simp
  next
    case 2
    show ?thesis
    proof (cases "k = propertyKey uri")
      case True
      then have "ps0 = featureParsers parser p fts []"
        using 2(1) by (simp add: AList.update_conv')
      then show ?thesis
        using featureParsers_parsers[of parser p fts "[]" l q] 2(2) by simp
    next
      case False
      then show ?thesis
        using 2 by (auto simp: AList.update_conv')
    qed
  qed
qed

lemma readFeatureElement_context:
  "readFeatureElement this n c = Inr (v, c') \<Longrightarrow>
   featureType c' = featureType c \<and> featureNS c' = featureNS c \<and>
   (\<exists>vals g i. v = Feature vals g i)"
proof -
  assume result: "readFeatureElement this n c = Inr (v, c')"
  then obtain vals g where loop:
    "readFeatureElement_loop this (elementChildren n) ([], None, c) = Inr (vals, g, c')"
    by (auto simp: readFeatureElement_def Let_def split: sum.splits)
  show ?thesis
    using readFeatureElement_loop_context[OF loop] result
    by (auto simp: readFeatureElement_def Let_def split: sum.splits)
qed

lemma members_parse:
  assumes parser: "parser = ArrayPusher (readFeatureElement this) \<or>
                   parser = Replacer (readFeatureElement this)"
    and run: "pushParseAndPop object (featureParsersNS parser fts nss []) node c = Inr (f, c')"
  shows "featureType c' = featureType c \<and> featureNS c' = featureNS c \<and>
         (parser = ArrayPusher (readFeatureElement this) \<and> isArray object \<longrightarrow> isArray f) \<and>
         (parser = Replacer (readFeatureElement this) \<longrightarrow>
            f = object \<or> (\<exists>vals g i. f = Feature vals g i))"
proof -
  let ?P = "featureParsersNS parser fts nss []"
  let ?J = "\<lambda>st. featureType (fst st) = featureType c \<and> featureNS (fst st) = featureNS c \<and>
         (parser = ArrayPusher (readFeatureElement this) \<and> isArray object \<longrightarrow> isArray (snd st)) \<and>
         (parser = Replacer (readFeatureElement this) \<longrightarrow>
            snd st = object \<or> (\<exists>vals g i. snd st = Feature vals g i))"
  have loop: "parseChildren ?P (elementChildren node) (c, object) = Inr (c', f)"
    using run by (auto simp: pushParseAndPop_def parseNode_def split: sum.splits)
  have step: "?J st'"
    if tbl: "map_of ?P k = Some ps" and ent: "map_of ps l = Some p" and inv: "?J st"
      and call: "callParser p n st = Inr st'"
    for k ps l p n st st'
  proof -
    have p: "p = parser"
      using featureParsersNS_parsers[OF tbl ent] by simp
    obtain c0 frame where st: "st = (c0, frame)"
      by (cases st)
    show ?thesis
    proof (cases "parser = ArrayPusher (readFeatureElement this)")
      case True
      obtain v c1 where read: "readFeatureElement this n c0 = Inr (v, c1)"
        using call p True st by (auto split: sum.splits)
      note readFeatureElement_context[OF read]
      then show ?thesis
        using inv call p True st read by (auto split: val.splits if_splits)
    next
      case False
      then have repl: "parser = Replacer (readFeatureElement this)"
        using parser by simp
      obtain v c1 where read: "readFeatureElement this n c0 = Inr (v, c1)"
        using call p repl st by (auto split: sum.splits)
      note readFeatureElement_context[OF read]
      then show ?thesis
        using inv call p repl st read by (auto split: if_splits)
    qed
  qed
  have "?J (c', f)"
  proof (rule parseChildren_invariant[where J = ?J and P = ?P, OF _ _ loop])
    show "\<forall>k ps l p n st st'. map_of ?P k = Some ps \<longrightarrow> map_of ps l = Some p \<longrightarrow>
       n \<in> set (elementChildren node) \<longrightarrow> ?J st \<longrightarrow> callParser p n st = Inr st' \<longrightarrow> ?J st'"
      using step by blast
    show "?J (c, object)"
      by simp
  qed
  then show ?thesis
    by simp
qed

lemma readFeaturesInternal_member:
  assumes name: "localName node = ''featureMember''"
  shows "readFeaturesInternal this node context =
     (case resolveFeatureTypes ''featureMember'' node context of
        (featureType', featureNS', context') \<Rightarrow>
          (case pushParseAndPop Undefined
                  (featureParsersNS (Replacer (readFeatureElement this))
                     (featureTypesArray featureType') (featureNSObject featureNS') [])
                  node context' of
             Inl e \<Rightarrow> Inl e
           | Inr (features, context'') \<Rightarrow>
               Inr (if features = Null then Arr [] else features, context'')))"
  using name by (simp add: readFeaturesInternal.simps[of this node "context"] split: prod.splits)

lemma readFeaturesInternal_members:
  assumes name: "localName node = ''featureMembers''"
  shows "readFeaturesInternal this node context =
     (case resolveFeatureTypes ''featureMembers'' node context of
        (featureType', featureNS', context') \<Rightarrow>
          (case pushParseAndPop (Arr [])
                  (featureParsersNS (ArrayPusher (readFeatureElement this))
                     (featureTypesArray featureType') (featureNSObject featureNS') [])
                  node context' of
             Inl e \<Rightarrow> Inl e
           | Inr (features, context'') \<Rightarrow>
               Inr (if features = Null then Arr [] else features, context'')))"
  using name by (simp add: readFeaturesInternal.simps[of this node "context"] split: prod.splits)

text \<open>
  Claim C2. When the context holds no feature type, the feature types and namespaces
  found by the discovery are stored into the parse context on the \<open>featureMembers\<close> form
  only. On that form the children are read with what was found, the context that
  \<open>readFeaturesInternal\<close> leaves behind holds it, and a \<open>featureMember\<close> element read
  with that context afterwards is read with the stored types and namespaces. On the
  \<open>featureMember\<close> form the children of the element are read with what was found in it,
  but the context keeps its feature type and namespaces, so for the next
  \<open>featureMember\<close> element the discovery runs again, on the children of that element.
\<close>

theorem discovery_stored_on_featureMembers:
  assumes falsy: "falsyFeatureType (featureType context)"
    and d: "d = discoverFeatureTypes (childNodes node) ([], [])"
  shows "(localName node = ''featureMembers'' \<longrightarrow>
            readFeaturesInternal this node context =
              (case pushParseAndPop (Arr [])
                      (featureParsersNS (ArrayPusher (readFeatureElement this)) (fst d) (snd d) [])
                      node (context\<lparr>featureType := FT_array (fst d), featureNS := NS_object (snd d)\<rparr>) of
                 Inl e \<Rightarrow> Inl e
               | Inr (features, context'') \<Rightarrow>
                   Inr (if features = Null then Arr [] else features, context'')) \<and>
            (\<forall>v c'. readFeaturesInternal this node context = Inr (v, c') \<longrightarrow>
               featureType c' = FT_array (fst d) \<and> featureNS c' = NS_object (snd d) \<and>
               (\<forall>sibling. localName sibling = ''featureMember'' \<longrightarrow>
                  readFeaturesInternal this sibling c' =
                    (case pushParseAndPop Undefined
                            (featureParsersNS (Replacer (readFeatureElement this)) (fst d) (snd d) [])
                            sibling c' of
                       Inl e \<Rightarrow> Inl e
                     | Inr (features, context'') \<Rightarrow>
                         Inr (if features = Null then Arr [] else features, context''))))) \<and>
         (localName node = ''featureMember'' \<longrightarrow>
            readFeaturesInternal this node context =
              (case pushParseAndPop Undefined
                      (featureParsersNS (Replacer (readFeatureElement this)) (fst d) (snd d) [])
                      node context of
                 Inl e \<Rightarrow> Inl e
               | Inr (features, context'') \<Rightarrow>
                   Inr (if features = Null then Arr [] else features, context'')) \<and>
            (\<forall>v c'. readFeaturesInternal this node context = Inr (v, c') \<longrightarrow>
               featureType c' = featureType context \<and> featureNS c' = featureNS context \<and>
               (\<forall>sibling. localName sibling = ''featureMember'' \<longrightarrow>
                  readFeaturesInternal this sibling c' =
                    (case pushParseAndPop Undefined
                            (featureParsersNS (Replacer (readFeatureElement this))
                               (fst (discoverFeatureTypes (childNodes sibling) ([], [])))
                               (snd (discoverFeatureTypes (childNodes sibling) ([], []))) [])
                            sibling c' of
                       Inl e \<Rightarrow> Inl e
                     | Inr (features, context'') \<Rightarrow>
                         Inr (if features = Null then Arr [] else features, context'')))))"
proof (intro conjI impI allI)
  assume name: "localName node = ''featureMembers''"
  let ?c = "context\<lparr>featureType := FT_array (fst d), featureNS := NS_object (snd d)\<rparr>"
  have resolved: "resolveFeatureTypes ''featureMembers'' node context =
              (FT_array (fst d), NS_object (snd d), ?c)"
    using falsy d by (simp add: resolveFeatureTypes_def Let_def)
  show unfolded: "readFeaturesInternal this node context =
              (case pushParseAndPop (Arr [])
                      (featureParsersNS (ArrayPusher (readFeatureElement this)) (fst d) (snd d) [])
                      node ?c of
                 Inl e \<Rightarrow> Inl e
               | Inr (features, context'') \<Rightarrow>
                   Inr (if features = Null then Arr [] else features, context''))"
    using readFeaturesInternal_members[OF name, of this "context"] resolved by simp
  fix v c'
  assume result: "readFeaturesInternal this node context = Inr (v, c')"
  then obtain features where
    "pushParseAndPop (Arr [])
       (featureParsersNS (ArrayPusher (readFeatureElement this)) (fst d) (snd d) [])
       node ?c = Inr (features, c')"
    using unfolded by (auto split: sum.splits)
  from members_parse[OF _ this]
  show stored: "featureType c' = FT_array (fst d)" and stored': "featureNS c' = NS_object (snd d)"
    by simp_all
  fix sibling
  assume sibling: "localName sibling = ''featureMember''"
  have "resolveFeatureTypes ''featureMember'' sibling c' =
          (FT_array (fst d), NS_object (snd d), c')"
    using stored stored' by (simp add: resolveFeatureTypes_def)
  then show "readFeaturesInternal this sibling c' =
                    (case pushParseAndPop Undefined
                            (featureParsersNS (Replacer (readFeatureElement this)) (fst d) (snd d) [])
                            sibling c' of
                       Inl e \<Rightarrow> Inl e
                     | Inr (features, context'') \<Rightarrow>
                         Inr (if features = Null then Arr [] else features, context''))"
    using readFeaturesInternal_member[OF sibling, of this c'] by simp
next
  assume name: "localName node = ''featureMember''"
  have resolved: "resolveFeatureTypes ''featureMember'' node context =
              (FT_array (fst d), NS_object (snd d), context)"
    using falsy d by (simp add: resolveFeatureTypes_def Let_def)
  show unfolded: "readFeaturesInternal this node context =
              (case pushParseAndPop Undefined
                      (featureParsersNS (Replacer (readFeatureElement this)) (fst d) (snd d) [])
                      node context of
                 Inl e \<Rightarrow> Inl e
               | Inr (features, context'') \<Rightarrow>
                   Inr (if features = Null then Arr [] else features, context''))"
    using readFeaturesInternal_member[OF name, of this "context"] resolved by simp
  fix v c'
  assume result: "readFeaturesInternal this node context = Inr (v, c')"
  then obtain features where
    "pushParseAndPop Undefined
       (featureParsersNS (Replacer (readFeatureElement this)) (fst d) (snd d) [])
       node context = Inr (features, c')"
    using unfolded by (auto split: sum.splits)
  from members_parse[OF _ this]
  show kept: "featureType c' = featureType context" and kept': "featureNS c' = featureNS context"
    by simp_all
  fix sibling
  assume sibling: "localName sibling = ''featureMember''"
  have "resolveFeatureTypes ''featureMember'' sibling c' =
          (FT_array (fst (discoverFeatureTypes (childNodes sibling) ([], []))),
           NS_object (snd (discoverFeatureTypes (childNodes sibling) ([], []))), c')"
    using falsy kept by (simp add: resolveFeatureTypes_def Let_def)
  then show "readFeaturesInternal this sibling c' =
                    (case pushParseAndPop Undefined
                            (featureParsersNS (Replacer (readFeatureElement this))
                               (fst (discoverFeatureTypes (childNodes sibling) ([], [])))
                               (snd (discoverFeatureTypes (childNodes sibling) ([], []))) [])
                            sibling c' of
                       Inl e \<Rightarrow> Inl e
                     | Inr (features, context'') \<Rightarrow>
                         Inr (if features = Null then Arr [] else features, context''))"
    using readFeaturesInternal_member[OF sibling, of this c'] by simp
qed

theorem discovery_stored_on_featureMembers_witness:
  "falsyFeatureType (featureType context0) \<and>
   localName twoNamespaces = ''featureMembers'' \<and>
   discoverFeatureTypes (childNodes twoNamespaces) ([], []) =
     ([''p0:road'', ''p1:river''],
      [(''p0'', Some ''http://topp''), (''p1'', Some ''http://x'')]) \<and>
   readFeaturesInternal gml0 twoNamespaces context0 =
     Inr (Arr [Feature [] None None, Feature [] None None],
          context0\<lparr>featureType := FT_array [''p0:road'', ''p1:river''],
                   featureNS := NS_object [(''p0'', Some ''http://topp''),
                                           (''p1'', Some ''http://x'')]\<rparr>) \<and>
   localName memberRoad = ''featureMember'' \<and>
   discoverFeatureTypes (childNodes memberRoad) ([], []) =
     ([''p0:road''], [(''p0'', Some ''http://topp'')]) \<and>
   readFeaturesInternal gml0 memberRoad context0 =
     Inr (Feature [(''name'', Str ''Main Street'')] None (Some ''road.1''), context0) \<and>
   readFeaturesInternal gml0 memberRoad
     (context0\<lparr>featureType := FT_array [''p0:road'', ''p1:river''],
               featureNS := NS_object [(''p0'', Some ''http://topp''),
                                       (''p1'', Some ''http://x'')]\<rparr>) =
     (case pushParseAndPop Undefined
             (featureParsersNS (Replacer (readFeatureElement gml0)) [''p0:road'', ''p1:river'']
                [(''p0'', Some ''http://topp''), (''p1'', Some ''http://x'')] [])
             memberRoad
             (context0\<lparr>featureType := FT_array [''p0:road'', ''p1:river''],
                        featureNS := NS_object [(''p0'', Some ''http://topp''),
                                                (''p1'', Some ''http://x'')]\<rparr>) of
        Inl e \<Rightarrow> Inl e
      | Inr (features, context'') \<Rightarrow>
          Inr (if features = Null then Arr [] else features, context''))"
proof -
  have falsy: "falsyFeatureType (featureType context0)"
    by (simp add: context0_def)
  have d2: "([''p0:road'', ''p1:river''],
             [(''p0'', Some ''http://topp''), (''p1'', Some ''http://x'')]) =
            discoverFeatureTypes (childNodes twoNamespaces) ([], [])"
    by code_simp
  have name2: "localName twoNamespaces = ''featureMembers''"
    by (simp add: twoNamespaces_def)
  have result2: "readFeaturesInternal gml0 twoNamespaces context0 =
     Inr (Arr [Feature [] None None, Feature [] None None],
          context0\<lparr>featureType := FT_array [''p0:road'', ''p1:river''],
                   featureNS := NS_object [(''p0'', Some ''http://topp''),
                                           (''p1'', Some ''http://x'')]\<rparr>)"
    by code_simp
  have d1: "([''p0:road''], [(''p0'', Some ''http://topp'')]) =
           discoverFeatureTypes (childNodes memberRoad) ([], [])"
    by code_simp
  have name1: "localName memberRoad = ''featureMember''"
    by (simp add: memberRoad_def)
  have result1: "readFeaturesInternal gml0 memberRoad context0 =
     Inr (Feature [(''name'', Str ''Main Street'')] None (Some ''road.1''), context0)"
    by code_simp
  note members = discovery_stored_on_featureMembers[OF falsy d2, of gml0,
                   THEN conjunct1, rule_format, OF name2]
  note stored = members[THEN conjunct2, rule_format, OF result2]
  have reused: "readFeaturesInternal gml0 memberRoad
     (context0\<lparr>featureType := FT_array [''p0:road'', ''p1:river''],
               featureNS := NS_object [(''p0'', Some ''http://topp''),
                                       (''p1'', Some ''http://x'')]\<rparr>) =
     (case pushParseAndPop Undefined
             (featureParsersNS (Replacer (readFeatureElement gml0)) [''p0:road'', ''p1:river'']
                [(''p0'', Some ''http://topp''), (''p1'', Some ''http://x'')] [])
             memberRoad
             (context0\<lparr>featureType := FT_array [''p0:road'', ''p1:river''],
                        featureNS := NS_object [(''p0'', Some ''http://topp''),
                                                (''p1'', Some ''http://x'')]\<rparr>) of
        Inl e \<Rightarrow> Inl e
      | Inr (features, context'') \<Rightarrow>
          Inr (if features = Null then Arr [] else features, context''))"
    using stored[THEN conjunct2, THEN conjunct2, rule_format, OF name1] by simp
  show ?thesis
    using falsy name2 d2[symmetric] result2 name1 d1[symmetric] result1 reused
    by (intro conjI)
qed

text \<open>
  Claim C3. When the context holds no feature type, \<open>readFeaturesInternal\<close> reads the
  children of a \<open>featureMembers\<close> or \<open>featureMember\<close> element with feature types and
  namespaces that it discovers from the element children of that container: the
  namespaces bind the prefixes \<open>p0\<close>, \<open>p1\<close>, ... to the distinct namespace URIs of the
  element children in the order of their first encounter, one prefix per URI, and the
  feature types hold for every element child the prefix of its namespace URI, a colon and
  its name: the part of its \<open>nodeName\<close> behind the last colon, which is its local name
  (lemma \<open>last_split_qualifiedName\<close>). Two element children of different namespaces get
  \<open>p0\<close> and \<open>p1\<close> in this order. On a \<open>featureMembers\<close> element the context that
  \<open>readFeaturesInternal\<close> leaves behind holds what was discovered.
\<close>

theorem readFeaturesInternal_discovers:
  assumes falsy: "falsyFeatureType (featureType context)"
    and name: "localName node = ''featureMembers'' \<or> localName node = ''featureMember''"
  shows "\<exists>tys ns.
           map snd ns = rev (remdups (rev (map namespaceURI (elementChildren node)))) \<and>
           map fst ns = map (\<lambda>i. ''p'' @ numberToString i) [0..<length ns] \<and>
           length tys = length (elementChildren node) \<and>
           (\<forall>i<length tys. \<exists>j<length ns.
              snd (ns ! j) = namespaceURI (elementChildren node ! i) \<and>
              tys ! i = (''p'' @ numberToString j) @ '':'' @
                            last (split CHR '':'' (nodeName (elementChildren node ! i)))) \<and>
           (\<forall>a b. elementChildren node = [a, b] \<and> namespaceURI a \<noteq> namespaceURI b \<longrightarrow>
              ns = [(''p0'', namespaceURI a), (''p1'', namespaceURI b)]) \<and>
           readFeaturesInternal this node context =
             (case pushParseAndPop
                     (if localName node = ''featureMember'' then Undefined else Arr [])
                     (featureParsersNS
                        (if localName node = ''featureMembers''
                         then ArrayPusher (readFeatureElement this)
                         else Replacer (readFeatureElement this))
                        tys ns [])
                     node
                     (if localName node \<noteq> ''featureMember''
                      then context\<lparr>featureType := FT_array tys, featureNS := NS_object ns\<rparr>
                      else context) of
                Inl e \<Rightarrow> Inl e
              | Inr (features, context'') \<Rightarrow>
                  Inr (if features = Null then Arr [] else features, context'')) \<and>
           (localName node = ''featureMembers'' \<longrightarrow>
              (\<forall>v c'. readFeaturesInternal this node context = Inr (v, c') \<longrightarrow>
                 featureType c' = FT_array tys \<and> featureNS c' = NS_object ns))"
proof -
  obtain ft fns c1 where
    resolved: "resolveFeatureTypes (localName node) node context = (ft, fns, c1)"
    by (rule prod_cases3)
  obtain tys ns where ft: "ft = FT_array tys" and fns: "fns = NS_object ns"
    and uris: "map snd ns = rev (remdups (rev (map namespaceURI (elementChildren node))))"
    and keys: "map fst ns = map (\<lambda>i. ''p'' @ numberToString i) [0..<length ns]"
    and len: "length tys = length (elementChildren node)"
    and each: "\<forall>i<length tys. \<exists>j<length ns.
              snd (ns ! j) = namespaceURI (elementChildren node ! i) \<and>
              tys ! i = (''p'' @ numberToString j) @ '':'' @
                            last (split CHR '':'' (nodeName (elementChildren node ! i)))"
    and two: "\<forall>a b. elementChildren node = [a, b] \<and> namespaceURI a \<noteq> namespaceURI b \<longrightarrow>
              ns = [(''p0'', namespaceURI a), (''p1'', namespaceURI b)]"
    using resolveFeatureTypes_found[OF falsy resolved] by blast
  have c1: "c1 = (if localName node \<noteq> ''featureMember''
                  then context\<lparr>featureType := FT_array tys, featureNS := NS_object ns\<rparr>
                  else context)"
    using falsy resolved ft fns by (auto simp: resolveFeatureTypes_def Let_def)
  have unfolded: "readFeaturesInternal this node context =
             (case pushParseAndPop
                     (if localName node = ''featureMember'' then Undefined else Arr [])
                     (featureParsersNS
                        (if localName node = ''featureMembers''
                         then ArrayPusher (readFeatureElement this)
                         else Replacer (readFeatureElement this))
                        tys ns [])
                     node
                     (if localName node \<noteq> ''featureMember''
                      then context\<lparr>featureType := FT_array tys, featureNS := NS_object ns\<rparr>
                      else context) of
                Inl e \<Rightarrow> Inl e
              | Inr (features, context'') \<Rightarrow>
                  Inr (if features = Null then Arr [] else features, context''))"
  proof (cases "localName node = ''featureMembers''")
    case True
    show ?thesis
      using readFeaturesInternal_members[OF True, of this "context"] resolved True ft fns c1
      by simp
  next
    case False
    then have member: "localName node = ''featureMember''"
      using name by simp
    show ?thesis
      using readFeaturesInternal_member[OF member, of this "context"] resolved member ft fns c1
      by simp
  qed
  have stored: "localName node = ''featureMembers'' \<longrightarrow>
              (\<forall>v c'. readFeaturesInternal this node context = Inr (v, c') \<longrightarrow>
                 featureType c' = FT_array tys \<and> featureNS c' = NS_object ns)"
  proof (intro impI allI)
    fix v c'
    assume members: "localName node = ''featureMembers''"
      and result: "readFeaturesInternal this node context = Inr (v, c')"
    obtain features where
      "pushParseAndPop (Arr [])
         (featureParsersNS (ArrayPusher (readFeatureElement this)) tys ns [])
         node (context\<lparr>featureType := FT_array tys, featureNS := NS_object ns\<rparr>) =
       Inr (features, c')"
      using result unfolded members by (auto split: sum.splits)
    from members_parse[OF _ this]
    show "featureType c' = FT_array tys \<and> featureNS c' = NS_object ns"
      by simp
  qed
  show ?thesis
    using uris keys len each two unfolded stored by blast
qed

theorem readFeaturesInternal_discovers_witness:
  "falsyFeatureType (featureType context0) \<and>
   (localName twoNamespaces = ''featureMembers'' \<or> localName twoNamespaces = ''featureMember'') \<and>
   map namespaceURI (elementChildren twoNamespaces) = [Some ''http://topp'', Some ''http://x''] \<and>
   readFeaturesInternal gml0 twoNamespaces context0 =
     Inr (Arr [Feature [] None None, Feature [] None None],
          context0\<lparr>featureType := FT_array [''p0:road'', ''p1:river''],
                   featureNS := NS_object [(''p0'', Some ''http://topp''),
                                           (''p1'', Some ''http://x'')]\<rparr>) \<and>
   (\<exists>tys. readFeaturesInternal gml0 twoNamespaces context0 =
             (case pushParseAndPop (Arr [])
                     (featureParsersNS (ArrayPusher (readFeatureElement gml0)) tys
                        [(''p0'', Some ''http://topp''), (''p1'', Some ''http://x'')] [])
                     twoNamespaces
                     (context0\<lparr>featureType := FT_array tys,
                               featureNS := NS_object [(''p0'', Some ''http://topp''),
                                                       (''p1'', Some ''http://x'')]\<rparr>) of
                Inl e \<Rightarrow> Inl e
              | Inr (features, context'') \<Rightarrow>
                  Inr (if features = Null then Arr [] else features, context'')))"
proof -
  have falsy: "falsyFeatureType (featureType context0)"
    by (simp add: context0_def)
  have name: "localName twoNamespaces = ''featureMembers''"
    by (simp add: twoNamespaces_def)
  have children: "elementChildren twoNamespaces =
     [Element ''topp:road'' ''road'' (Some ''http://topp'') [] [],
      Element ''x:river'' ''river'' (Some ''http://x'') [] []]"
    by code_simp
  have result: "readFeaturesInternal gml0 twoNamespaces context0 =
     Inr (Arr [Feature [] None None, Feature [] None None],
          context0\<lparr>featureType := FT_array [''p0:road'', ''p1:river''],
                   featureNS := NS_object [(''p0'', Some ''http://topp''),
                                           (''p1'', Some ''http://x'')]\<rparr>)"
    by code_simp
  obtain tys ns where
    two: "\<forall>a b. elementChildren twoNamespaces = [a, b] \<and> namespaceURI a \<noteq> namespaceURI b \<longrightarrow>
              ns = [(''p0'', namespaceURI a), (''p1'', namespaceURI b)]"
    and unfolded: "readFeaturesInternal gml0 twoNamespaces context0 =
             (case pushParseAndPop
                     (if localName twoNamespaces = ''featureMember'' then Undefined else Arr [])
                     (featureParsersNS
                        (if localName twoNamespaces = ''featureMembers''
                         then ArrayPusher (readFeatureElement gml0)
                         else Replacer (readFeatureElement gml0))
                        tys ns [])
                     twoNamespaces
                     (if localName twoNamespaces \<noteq> ''featureMember''
                      then context0\<lparr>featureType := FT_array tys, featureNS := NS_object ns\<rparr>
                      else context0) of
                Inl e \<Rightarrow> Inl e
              | Inr (features, context'') \<Rightarrow>
                  Inr (if features = Null then Arr [] else features, context''))"
    using readFeaturesInternal_discovers[of context0 twoNamespaces gml0] falsy name by blast
  have ns: "ns = [(''p0'', Some ''http://topp''), (''p1'', Some ''http://x'')]"
    using two children by simp
  have "\<exists>tys. readFeaturesInternal gml0 twoNamespaces context0 =
             (case pushParseAndPop (Arr [])
                     (featureParsersNS (ArrayPusher (readFeatureElement gml0)) tys
                        [(''p0'', Some ''http://topp''), (''p1'', Some ''http://x'')] [])
                     twoNamespaces
                     (context0\<lparr>featureType := FT_array tys,
                               featureNS := NS_object [(''p0'', Some ''http://topp''),
                                                       (''p1'', Some ''http://x'')]\<rparr>) of
                Inl e \<Rightarrow> Inl e
              | Inr (features, context'') \<Rightarrow>
                  Inr (if features = Null then Arr [] else features, context''))"
    using unfolded name ns by auto
  then show ?thesis
    using falsy name children result by simp
qed

lemma readFeaturesInternal_value:
  "readFeaturesInternal this node c = Inr (f, c') \<Longrightarrow>
   f = Undefined \<or> isArray f \<or> (\<exists>vals g i. f = Feature vals g i)"
proof (induction this node c arbitrary: f c' rule: readFeaturesInternal.induct)
  case (1 this node ctx)
  let ?shape = "\<lambda>f :: 'a val. f = Undefined \<or> isArray f \<or> (\<exists>vals g i. f = Feature vals g i)"
  have children: "?shape v" if "n \<in> set (elementChildren node)"
    "localName node = ''FeatureCollection''" "readFeaturesInternal this n c1 = Inr (v, c2)"
    for n c1 v c2
  proof -
    have n: "n \<in> set (childNodes node)"
      using that(1) by (simp add: elementChildren_def)
    show ?thesis
    proof (cases "namespaceURI node = Some ''http://www.opengis.net/wfs''")
      case True
      show ?thesis
        using "1.IH"(1)[OF that(2) True n that(3)] .
    next
      case False
      show ?thesis
        using "1.IH"(2)[OF that(2) False n that(3)] .
    qed
  qed
  show ?case
  proof (cases "localName node = ''FeatureCollection''")
    case fc: True
    let ?object = "if namespaceURI node = Some ''http://www.opengis.net/wfs'' then Arr [] else Null"
    let ?P = "FEATURE_COLLECTION_PARSERS (readFeaturesInternal this)"
    let ?J = "\<lambda>st :: ParseContext \<times> 'a val. snd st = Null \<or> ?shape (snd st)"
    obtain features where run: "pushParseAndPop ?object ?P node ctx = Inr (features, c')"
      and f: "f = (if features = Null then Arr [] else features)"
      using "1.prems" fc
      by (auto simp: readFeaturesInternal.simps[of this node ctx] split: sum.splits if_splits)
    have loop: "parseChildren ?P (elementChildren node) (ctx, ?object) = Inr (c', features)"
      using run by (auto simp: pushParseAndPop_def parseNode_def split: sum.splits)
    have "?J (c', features)"
    proof (rule parseChildren_invariant[where J = ?J and P = ?P, OF _ _ loop])
      show "\<forall>k ps l p n st st'. map_of ?P k = Some ps \<longrightarrow> map_of ps l = Some p \<longrightarrow>
         n \<in> set (elementChildren node) \<longrightarrow> ?J st \<longrightarrow> callParser p n st = Inr st' \<longrightarrow> ?J st'"
      proof (intro allI impI)
        fix k ps l p n and st st' :: "ParseContext \<times> 'a val"
        assume tbl: "map_of ?P k = Some ps" and ent: "map_of ps l = Some p"
          and n: "n \<in> set (elementChildren node)" and inv: "?J st"
          and call: "callParser p n st = Inr st'"
        have p: "p = Replacer (readFeaturesInternal this)"
          using tbl ent by (auto simp: FEATURE_COLLECTION_PARSERS_def split: if_splits)
        obtain c0 frame where st: "st = (c0, frame)"
          by (cases st)
        obtain v c1 where read: "readFeaturesInternal this n c0 = Inr (v, c1)"
          and st': "st' = (c1, if v \<noteq> Undefined then v else frame)"
          using call p st by (auto split: sum.splits)
        have "?shape v"
          using children[OF n fc read] .
        then show "?J st'"
          using inv st st' by auto
      qed
      show "?J (ctx, ?object)"
        by simp
    qed
    then show ?thesis
      using f by auto
  next
    case nofc: False
    show ?thesis
    proof (cases "localName node = ''featureMembers''")
      case True
      obtain ft fns c1 where r: "resolveFeatureTypes ''featureMembers'' node ctx = (ft, fns, c1)"
        by (rule prod_cases3)
      obtain features where
        run: "pushParseAndPop (Arr [])
                (featureParsersNS (ArrayPusher (readFeatureElement this))
                   (featureTypesArray ft) (featureNSObject fns) [])
                node c1 = Inr (features, c')"
        and f: "f = (if features = Null then Arr [] else features)"
        using "1.prems" readFeaturesInternal_members[OF True, of this ctx] r
        by (auto split: sum.splits)
      from members_parse[OF _ run] have "isArray features"
        by simp
      then show ?thesis
        using f by auto
    next
      case notMembers: False
      show ?thesis
      proof (cases "localName node = ''featureMember''")
        case True
        obtain ft fns c1 where r: "resolveFeatureTypes ''featureMember'' node ctx = (ft, fns, c1)"
          by (rule prod_cases3)
        obtain features where
          run: "pushParseAndPop Undefined
                  (featureParsersNS (Replacer (readFeatureElement this))
                     (featureTypesArray ft) (featureNSObject fns) [])
                  node c1 = Inr (features, c')"
          and f: "f = (if features = Null then Arr [] else features)"
          using "1.prems" readFeaturesInternal_member[OF True, of this ctx] r
          by (auto split: sum.splits)
        from members_parse[OF _ run]
        have "features = Undefined \<or> (\<exists>vals g i. features = Feature vals g i)"
          by simp
        then show ?thesis
          using f by auto
      next
        case False
        then have "f = Arr []"
          using "1.prems" nofc notMembers
          by (simp add: readFeaturesInternal.simps[of this node ctx])
        then show ?thesis
          by simp
      qed
    qed
  qed
qed

lemma propertiesReadable_children:
  "propertiesReadable node \<Longrightarrow> n \<in> set (childNodes node) \<Longrightarrow> propertiesReadable n"
  by (cases node) (auto simp: list_all_iff)

lemma propertiesReadable_self:
  "propertiesReadable n \<Longrightarrow> nodeType n = 1 \<Longrightarrow>
   isAttributeElement n \<or> firstElementChild n \<noteq> None"
  by (cases n) auto

lemma readFeatureElement_returns:
  assumes "propertiesReadable n" and "\<forall>n c. \<exists>r. GEOMETRY_PARSERS this n c = Inr r"
  shows "\<exists>vals g i c'. readFeatureElement this n c = Inr (Feature vals g i, c')"
proof -
  have "list_all (\<lambda>m. isAttributeElement m \<or> firstElementChild m \<noteq> None) (elementChildren n)"
    using assms(1) propertiesReadable_children[of n] propertiesReadable_self
    by (auto simp: list_all_iff elementChildren_def)
  then obtain r where "readFeatureElement_loop this (elementChildren n) ([], None, c) = Inr r"
    using readFeatureElement_loop_returns[OF _ assms(2)] by blast
  then show ?thesis
    by (cases r) (auto simp: readFeatureElement_def Let_def)
qed

lemma parseChildren_returns:
  "(\<forall>k ps l p n st. map_of P k = Some ps \<longrightarrow> map_of ps l = Some p \<longrightarrow>
       n \<in> set cs \<longrightarrow> J st \<longrightarrow> (\<exists>st'. callParser p n st = Inr st' \<and> J st')) \<Longrightarrow>
   J st \<Longrightarrow> \<exists>st'. parseChildren P cs st = Inr st' \<and> J st'"
proof (induction cs arbitrary: st)
  case Nil
  then show ?case by simp
next
  case (Cons n ns)
  note step = Cons.prems(1)[rule_format]
  have step': "\<forall>k ps l p m st. map_of P k = Some ps \<longrightarrow> map_of ps l = Some p \<longrightarrow>
       m \<in> set ns \<longrightarrow> J st \<longrightarrow> (\<exists>st'. callParser p m st = Inr st' \<and> J st')"
  proof (intro allI impI)
    fix k ps l p m st
    assume a: "map_of P k = Some ps" "map_of ps l = Some p" "m \<in> set ns" "J st"
    have "m \<in> set (n # ns)"
      using a(3) by simp
    then show "\<exists>st'. callParser p m st = Inr st' \<and> J st'"
      using step[OF a(1) a(2) _ a(4)] by blast
  qed
  show ?case
  proof (cases "map_of P (propertyKey (namespaceURI n))")
    case None
    then show ?thesis
      using Cons.IH[OF step' Cons.prems(2)] by simp
  next
    case (Some ps)
    show ?thesis
    proof (cases "map_of ps (localName n)")
      case None
      then show ?thesis
        using Cons.IH[OF step' Cons.prems(2)] Some by simp
    next
      case p: (Some p)
      have "n \<in> set (n # ns)"
        by simp
      then obtain st1 where call: "callParser p n st = Inr st1" and "J st1"
        using step[OF Some p _ Cons.prems(2)] by blast
      then show ?thesis
        using Cons.IH[OF step', of st1] Some p by simp
    qed
  qed
qed

lemma members_parse_returns:
  assumes parser: "parser = ArrayPusher (readFeatureElement this) \<and> isArray object \<or>
                   parser = Replacer (readFeatureElement this)"
    and readable: "propertiesReadable node"
    and total: "\<forall>n c. \<exists>r. GEOMETRY_PARSERS this n c = Inr r"
  shows "\<exists>r. pushParseAndPop object (featureParsersNS parser fts nss []) node c = Inr r"
proof -
  let ?P = "featureParsersNS parser fts nss []"
  let ?J = "\<lambda>st :: ParseContext \<times> 'a val. parser = ArrayPusher (readFeatureElement this) \<longrightarrow> isArray (snd st)"
  have "\<exists>st'. parseChildren ?P (elementChildren node) (c, object) = Inr st' \<and> ?J st'"
  proof (rule parseChildren_returns[where J = ?J])
    show "\<forall>k ps l p n st. map_of ?P k = Some ps \<longrightarrow> map_of ps l = Some p \<longrightarrow>
       n \<in> set (elementChildren node) \<longrightarrow> ?J st \<longrightarrow> (\<exists>st'. callParser p n st = Inr st' \<and> ?J st')"
    proof (intro allI impI)
      fix k ps l p n and st :: "ParseContext \<times> 'a val"
      assume tbl: "map_of ?P k = Some ps" and ent: "map_of ps l = Some p"
        and n: "n \<in> set (elementChildren node)" and inv: "?J st"
      have p: "p = parser"
        using featureParsersNS_parsers[OF tbl ent] by simp
      obtain c0 frame where st: "st = (c0, frame)"
        by (cases st)
      have "propertiesReadable n"
        using readable n propertiesReadable_children[of node n] by (simp add: elementChildren_def)
      then obtain vals g i c1 where read: "readFeatureElement this n c0 = Inr (Feature vals g i, c1)"
        using readFeatureElement_returns[OF _ total] by blast
      show "\<exists>st'. callParser p n st = Inr st' \<and> ?J st'"
      proof (cases "parser = ArrayPusher (readFeatureElement this)")
        case True
        then obtain xs where "frame = Arr xs"
          using inv st by (cases frame) auto
        then show ?thesis
          using p True st read by simp
      next
        case False
        then have "parser = Replacer (readFeatureElement this)"
          using parser by blast
        then show ?thesis
          using p st read by simp
      qed
    qed
    show "?J (c, object)"
      using parser by auto
  qed
  then show ?thesis
    by (auto simp: pushParseAndPop_def parseNode_def)
qed

lemma readFeaturesInternal_returns:
  "propertiesReadable node \<Longrightarrow> \<forall>n c. \<exists>r. GEOMETRY_PARSERS this n c = Inr r \<Longrightarrow>
   \<exists>r. readFeaturesInternal this node c = Inr r"
proof (induction this node c rule: readFeaturesInternal.induct)
  case (1 this node ctx)
  have children: "\<exists>r. readFeaturesInternal this n c1 = Inr r"
    if "n \<in> set (elementChildren node)" "localName node = ''FeatureCollection''" for n c1
  proof -
    have n: "n \<in> set (childNodes node)"
      using that(1) by (simp add: elementChildren_def)
    have r: "propertiesReadable n"
      using propertiesReadable_children[OF "1.prems"(1) n] .
    show ?thesis
    proof (cases "namespaceURI node = Some ''http://www.opengis.net/wfs''")
      case True
      show ?thesis
        using "1.IH"(1)[OF that(2) True n r "1.prems"(2)] .
    next
      case False
      show ?thesis
        using "1.IH"(2)[OF that(2) False n r "1.prems"(2)] .
    qed
  qed
  show ?case
  proof (cases "localName node = ''FeatureCollection''")
    case fc: True
    let ?object = "if namespaceURI node = Some ''http://www.opengis.net/wfs'' then Arr [] else Null"
    let ?P = "FEATURE_COLLECTION_PARSERS (readFeaturesInternal this)"
    have "\<exists>st'. parseChildren ?P (elementChildren node) (ctx, ?object) = Inr st' \<and> True"
    proof (rule parseChildren_returns[where J = "\<lambda>st. True"])
      show "\<forall>k ps l p n st. map_of ?P k = Some ps \<longrightarrow> map_of ps l = Some p \<longrightarrow>
         n \<in> set (elementChildren node) \<longrightarrow> True \<longrightarrow> (\<exists>st'. callParser p n st = Inr st' \<and> True)"
      proof (intro allI impI)
        fix k ps l p n and st :: "ParseContext \<times> 'a val"
        assume tbl: "map_of ?P k = Some ps" and ent: "map_of ps l = Some p"
          and n: "n \<in> set (elementChildren node)"
        have p: "p = Replacer (readFeaturesInternal this)"
          using tbl ent by (auto simp: FEATURE_COLLECTION_PARSERS_def split: if_splits)
        obtain c0 frame where st: "st = (c0, frame)"
          by (cases st)
        obtain r where "readFeaturesInternal this n c0 = Inr r"
          using children[OF n fc] by blast
        then show "\<exists>st'. callParser p n st = Inr st' \<and> True"
          using p st by (cases r) simp
      qed
      show True ..
    qed
    then obtain st' where "parseChildren ?P (elementChildren node) (ctx, ?object) = Inr st'"
      by blast
    then show ?thesis
      using fc by (cases st')
        (auto simp: readFeaturesInternal.simps[of this node ctx] pushParseAndPop_def parseNode_def
              split: if_splits)
  next
    case nofc: False
    show ?thesis
    proof (cases "localName node = ''featureMembers''")
      case True
      obtain ft fns c1 where r: "resolveFeatureTypes ''featureMembers'' node ctx = (ft, fns, c1)"
        by (rule prod_cases3)
      obtain res where "pushParseAndPop (Arr [])
                (featureParsersNS (ArrayPusher (readFeatureElement this))
                   (featureTypesArray ft) (featureNSObject fns) [])
                node c1 = Inr res"
        using members_parse_returns[OF _ "1.prems"(1) "1.prems"(2),
                of "ArrayPusher (readFeatureElement this)" "Arr []"
                   "featureTypesArray ft" "featureNSObject fns" c1]
        by (simp del: split_paired_Ex) blast
      then show ?thesis
        using readFeaturesInternal_members[OF True, of this ctx] r by (cases res) simp
    next
      case notMembers: False
      show ?thesis
      proof (cases "localName node = ''featureMember''")
        case True
        obtain ft fns c1 where r: "resolveFeatureTypes ''featureMember'' node ctx = (ft, fns, c1)"
          by (rule prod_cases3)
        obtain res where "pushParseAndPop Undefined
                  (featureParsersNS (Replacer (readFeatureElement this))
                     (featureTypesArray ft) (featureNSObject fns) [])
                  node c1 = Inr res"
          using members_parse_returns[OF _ "1.prems"(1) "1.prems"(2),
                  of "Replacer (readFeatureElement this)" Undefined
                     "featureTypesArray ft" "featureNSObject fns" c1]
          by (simp del: split_paired_Ex) blast
        then show ?thesis
          using readFeaturesInternal_member[OF True, of this ctx] r by (cases res) simp
      next
        case False
        then show ?thesis
          using nofc notMembers by (simp add: readFeaturesInternal.simps[of this node ctx])
      qed
    qed
  qed
qed

text \<open>
  What \<open>readFeaturesFromNode\<close> returns. Its result is neither \<open>null\<close> nor \<open>undefined\<close>: a
  falsy result of \<open>readFeaturesInternal\<close> is replaced by the empty array. The result is an
  array for a \<open>featureMembers\<close> element and the empty array for every node that is none
  of \<open>FeatureCollection\<close>, \<open>featureMembers\<close> and \<open>featureMember\<close>. It returns whenever
  every element of the tree is read as an attribute value or has a child element, and the
  geometry parsers do not throw.
\<close>

lemma readFeaturesFromNode_value:
  "(readFeaturesFromNode this node = Inr v \<longrightarrow>
      v \<noteq> Undefined \<and> v \<noteq> Null \<and> (isArray v \<or> (\<exists>vals g i. v = Feature vals g i))) \<and>
   (\<forall>f c'. readFeaturesInternal this node
               \<lparr>featureType = this_featureType this, featureNS = this_featureNS this,
                srsName = None, srsDimension = None\<rparr> = Inr (f, c') \<longrightarrow>
      readFeaturesFromNode this node = Inr (if truthy f then f else Arr [])) \<and>
   (localName node = ''featureMembers'' \<longrightarrow> readFeaturesFromNode this node = Inr v \<longrightarrow> isArray v) \<and>
   (localName node \<noteq> ''FeatureCollection'' \<and> localName node \<noteq> ''featureMembers'' \<and>
    localName node \<noteq> ''featureMember'' \<longrightarrow>
      readFeaturesFromNode this node = Inr (Arr [])) \<and>
   (propertiesReadable node \<and> (\<forall>n c. \<exists>r. GEOMETRY_PARSERS this n c = Inr r) \<longrightarrow>
      (\<exists>r. readFeaturesFromNode this node = Inr r))"
proof (intro conjI impI allI)
  let ?options = "\<lparr>featureType = this_featureType this, featureNS = this_featureNS this,
                   srsName = None, srsDimension = None\<rparr>"
  show "v \<noteq> Undefined" and "v \<noteq> Null"
    and shape: "isArray v \<or> (\<exists>vals g i. v = Feature vals g i)"
    if result: "readFeaturesFromNode this node = Inr v"
  proof -
    obtain f c' where internal: "readFeaturesInternal this node ?options = Inr (f, c')"
      and v: "v = (if truthy f then f else Arr [])"
      using result by (auto simp: readFeaturesFromNode_def Let_def split: sum.splits)
    from readFeaturesInternal_value[OF internal]
    show "v \<noteq> Undefined" and "v \<noteq> Null" and "isArray v \<or> (\<exists>vals g i. v = Feature vals g i)"
      using v by auto
  qed
  show "readFeaturesFromNode this node = Inr (if truthy f then f else Arr [])"
    if "readFeaturesInternal this node ?options = Inr (f, c')" for f c'
    using that by (simp add: readFeaturesFromNode_def)
  show "isArray v"
    if name: "localName node = ''featureMembers''" and result: "readFeaturesFromNode this node = Inr v"
  proof -
    obtain f c' where internal: "readFeaturesInternal this node ?options = Inr (f, c')"
      and v: "v = (if truthy f then f else Arr [])"
      using result by (auto simp: readFeaturesFromNode_def Let_def split: sum.splits)
    obtain ft fns c1 where r: "resolveFeatureTypes ''featureMembers'' node ?options = (ft, fns, c1)"
      by (rule prod_cases3)
    obtain features where
      run: "pushParseAndPop (Arr [])
              (featureParsersNS (ArrayPusher (readFeatureElement this))
                 (featureTypesArray ft) (featureNSObject fns) [])
              node c1 = Inr (features, c')"
      and f: "f = (if features = Null then Arr [] else features)"
      using internal readFeaturesInternal_members[OF name, of this ?options] r
      by (auto split: sum.splits)
    from members_parse[OF _ run] have "isArray features"
      by simp
    then show ?thesis
      using f v by auto
  qed
  show "readFeaturesFromNode this node = Inr (Arr [])"
    if "localName node \<noteq> ''FeatureCollection'' \<and> localName node \<noteq> ''featureMembers'' \<and>
        localName node \<noteq> ''featureMember''"
    using that by (simp add: readFeaturesFromNode_def readFeaturesInternal.simps[of this node ?options])
  show "\<exists>r. readFeaturesFromNode this node = Inr r"
    if readable: "propertiesReadable node \<and> (\<forall>n c. \<exists>r. GEOMETRY_PARSERS this n c = Inr r)"
  proof -
    obtain r where "readFeaturesInternal this node ?options = Inr r"
      using readFeaturesInternal_returns[of node this ?options] readable by blast
    then show ?thesis
      by (cases r) (simp add: readFeaturesFromNode_def)
  qed
qed

text \<open>
  Claim C10 fails on the code. \<open>readFeaturesFromNode\<close> passes on whatever truthy value
  \<open>readFeaturesInternal\<close> returns. On a \<open>featureMember\<close> element the frame is seeded
  with \<open>undefined\<close> and the parsers are replacers, so a child that is read as a feature
  replaces the frame, and the feature itself is returned where the documentation of both
  functions promises an array of features. The \<open>featureMembers\<close> form of the same content
  yields the array. A feature collection of \<open>featureMember\<close> elements yields one feature
  as well, the last: the table of the collection replaces the frame by what each member
  returned.
\<close>

theorem readFeaturesFromNode_feature:
  "readFeaturesFromNode gml0 memberRoad =
     Inr (Feature [(''name'', Str ''Main Street'')] None (Some ''road.1'')) \<and>
   \<not> isArray (Feature [(''name'', Str ''Main Street'')] None (Some ''road.1'') :: unit val) \<and>
   readFeaturesFromNode gml0 membersRoad =
     Inr (Arr [Feature [(''name'', Str ''Main Street'')] None (Some ''road.1'')]) \<and>
   readFeaturesFromNode gml0 collectionOfMembers =
     Inr (Feature [(''name'', Str ''Mill Creek'')] None (Some ''river.1''))"
  by code_simp

end
